theory Spec2Isabelle
  imports Main "HOL-Library.Sublist"
begin

section \<open>JavaScript values\<close>

text \<open>
  The server handles loosely typed JSON. A value is one of JavaScript's primitives, an
  array, or a plain object. An object is the list of its own properties in the order
  \<^verbatim>\<open>Object.entries\<close> enumerates them; looking a name up takes the first entry
  of that name. Numbers are the integers (the remote service's ids, page numbers, limits
  and status codes); strings are lists of 8-bit characters, and case folding and
  white space are those of ASCII.
\<close>

datatype jsval =
    Undefined
  | Null
  | Bool bool
  | Num int
  | Str string
  | Arr "jsval list"
  | Obj "(string \<times> jsval) list"

text \<open>Truthiness, as \<^verbatim>\<open>if (v)\<close>, \<^verbatim>\<open>!v\<close>, \<^verbatim>\<open>a || b\<close> read it.\<close>

fun truthy :: "jsval \<Rightarrow> bool" where
  "truthy Undefined = False"
| "truthy Null = False"
| "truthy (Bool b) = b"
| "truthy (Num n) = (n \<noteq> 0)"
| "truthy (Str s) = (s \<noteq> [])"
| "truthy (Arr xs) = True"
| "truthy (Obj kvs) = True"

text \<open>\<^verbatim>\<open>a || b\<close> and \<^verbatim>\<open>a ?? b\<close>.\<close>

definition js_or :: "jsval \<Rightarrow> jsval \<Rightarrow> jsval" where
  "js_or a b = (if truthy a then a else b)"

fun nullish :: "jsval \<Rightarrow> bool" where
  "nullish Undefined = True"
| "nullish Null = True"
| "nullish v = False"

fun isArray :: "jsval \<Rightarrow> bool" where
  "isArray (Arr xs) = True"
| "isArray v = False"

fun elems :: "jsval \<Rightarrow> jsval list" where
  "elems (Arr xs) = xs"
| "elems v = []"

text \<open>
  \<^verbatim>\<open>v?.[k]\<close>: the property \<open>k\<close> of \<open>v\<close>, \<^verbatim>\<open>undefined\<close> when \<open>v\<close> is
  \<^verbatim>\<open>null\<close> or \<^verbatim>\<open>undefined\<close> or has no such property. Only plain objects carry
  properties here: the members JavaScript gives arrays and primitives (\<^verbatim>\<open>length\<close>,
  indices, prototype methods) are never arrays and are none of the names the server reads.
\<close>

fun optProp :: "jsval \<Rightarrow> string \<Rightarrow> jsval" where
  "optProp (Obj kvs) k = (case map_of kvs k of Some v \<Rightarrow> v | None \<Rightarrow> Undefined)"
| "optProp v k = Undefined"

subsection \<open>Strings\<close>

definition digit_char :: "nat \<Rightarrow> char" where
  "digit_char d = ''0123456789'' ! d"

text \<open>Decimal rendering of a number, as \<^verbatim>\<open>String(n)\<close> gives it for an integer.\<close>

fun decimal :: "nat \<Rightarrow> string" where
  "decimal n = (if 10 \<le> n then decimal (n div 10) else []) @ [digit_char (n mod 10)]"

declare decimal.simps [simp del]

definition number_toString :: "int \<Rightarrow> string" where
  "number_toString i = (if 0 \<le> i then decimal (nat i) else CHR ''-'' # decimal (nat (- i)))"

fun joinWith :: "string \<Rightarrow> string list \<Rightarrow> string" where
  "joinWith sep [] = []"
| "joinWith sep [x] = x"
| "joinWith sep (x # y # ys) = x @ sep @ joinWith sep (y # ys)"

text \<open>
  \<^verbatim>\<open>String(v)\<close> and the conversion of a template literal \<^verbatim>\<open>`${v}`\<close>. An array
  joins its elements with commas, \<^verbatim>\<open>null\<close> and \<^verbatim>\<open>undefined\<close> elements as the
  empty string.
\<close>

fun toString :: "jsval \<Rightarrow> string" where
  "toString Undefined = ''undefined''"
| "toString Null = ''null''"
| "toString (Bool b) = (if b then ''true'' else ''false'')"
| "toString (Num n) = number_toString n"
| "toString (Str s) = s"
| "toString (Arr xs) = joinWith '','' (map (\<lambda>x. if nullish x then [] else toString x) xs)"
| "toString (Obj kvs) = ''[object Object]''"

definition toLowerChar :: "char \<Rightarrow> char" where
  "toLowerChar c =
     (case map_of (zip ''ABCDEFGHIJKLMNOPQRSTUVWXYZ'' ''abcdefghijklmnopqrstuvwxyz'') c of
        Some d \<Rightarrow> d
      | None \<Rightarrow> c)"

definition toLowerCase :: "string \<Rightarrow> string" where
  "toLowerCase s = map toLowerChar s"

text \<open>White space of \<^verbatim>\<open>\s\<close> and of \<^verbatim>\<open>trim\<close>: tab, LF, VT, FF, CR, space.\<close>

definition is_space :: "char \<Rightarrow> bool" where
  "is_space c = (c \<in> set [CHR 0x09, CHR 0x0A, CHR 0x0B, CHR 0x0C, CHR 0x0D, CHR 0x20])"

definition trim :: "string \<Rightarrow> string" where
  "trim s = rev (dropWhile is_space (rev (dropWhile is_space s)))"

text \<open>\<^verbatim>\<open>s.startsWith(p)\<close> and \<^verbatim>\<open>s.includes(p)\<close>.\<close>

definition startsWith :: "string \<Rightarrow> string \<Rightarrow> bool" where
  "startsWith s p = (take (length p) s = p)"

fun str_includes :: "string \<Rightarrow> string \<Rightarrow> bool" where
  "str_includes [] p = (p = [])"
| "str_includes (c # cs) p = (startsWith (c # cs) p \<or> str_includes cs p)"

section \<open>Response normalisation\<close>

text \<open>
  \<^verbatim>\<open>extractArray(payload, keys = [])\<close>: the loop over the candidate keys is
  \<open>extractArray_keys\<close>; the result is the array's elements.
\<close>

fun extractArray_keys :: "jsval \<Rightarrow> string list \<Rightarrow> jsval list option" where
  "extractArray_keys payload [] = None"
| "extractArray_keys payload (key # keys) =
     (if isArray (optProp payload key) then Some (elems (optProp payload key))
      else extractArray_keys payload keys)"

definition extractArray :: "jsval \<Rightarrow> string list \<Rightarrow> jsval list" where
  "extractArray payload keys =
     (if isArray payload then elems payload
      else case extractArray_keys payload keys of
        Some xs \<Rightarrow> xs
      | None \<Rightarrow>
          if isArray (optProp payload ''data'') then elems (optProp payload ''data'')
          else [])"

section \<open>Configuration\<close>

text \<open>
  The module constants \<^verbatim>\<open>baseUrl\<close>, \<^verbatim>\<open>account\<close> and \<^verbatim>\<open>password\<close>, read once
  from the environment when the module loads (\<^verbatim>\<open>baseUrl\<close> with one trailing slash
  removed); a missing variable is the empty string.
\<close>

record config =
  baseUrl :: string
  account :: string
  password :: string

subsection \<open>The fallback scan of local files\<close>

definition ascii_letters :: string where
  "ascii_letters = ''ABCDEFGHIJKLMNOPQRSTUVWXYZabcdefghijklmnopqrstuvwxyz''"

definition ascii_digits :: string where
  "ascii_digits = ''0123456789''"

definition is_key_start :: "char \<Rightarrow> bool" where
  "is_key_start c = (c \<in> set (ascii_letters @ ''_''))"

definition is_key_char :: "char \<Rightarrow> bool" where
  "is_key_char c = (c \<in> set (ascii_letters @ ascii_digits @ ''_''))"

definition is_quote :: "char \<Rightarrow> bool" where
  "is_quote c = (c = CHR 0x22 \<or> c = CHR 0x27)"

text \<open>The characters that \<^verbatim>\<open>.\<close> does not match (no \<^verbatim>\<open>s\<close> flag): LF and CR.\<close>

definition is_line_terminator :: "char \<Rightarrow> bool" where
  "is_line_terminator c = (c = CHR 0x0A \<or> c = CHR 0x0D)"

text \<open>The end of the pattern, \<^verbatim>\<open>["']?\s*$\<close>.\<close>

definition tail_matches :: "string \<Rightarrow> bool" where
  "tail_matches r =
     (list_all is_space r \<or> (case r of [] \<Rightarrow> False | c # cs \<Rightarrow> is_quote c \<and> list_all is_space cs))"

text \<open>
  The lazy group \<^verbatim>\<open>(.*?)\<close> before that end: the shortest run of characters other than
  line terminators after which the end of the pattern matches.
\<close>

fun lazy_value :: "string \<Rightarrow> string option" where
  "lazy_value [] = (if tail_matches [] then Some [] else None)"
| "lazy_value (c # cs) =
     (if tail_matches (c # cs) then Some []
      else if is_line_terminator c then None
      else map_option ((#) c) (lazy_value cs))"

text \<open>
  \<^verbatim>\<open>([A-Za-z_][A-Za-z0-9_]*)\s*=\s*["']?(.*?)["']?\s*$\<close> from the start of \<open>s\<close>: the key
  and the white space are greedy, an opening quote is consumed when there is one. Giving
  back a greedy character never lets a later part match (a key character is neither white
  space nor \<^verbatim>\<open>=\<close>; white space or a quote handed to the lazy group leaves the same
  end to match), so the first choice decides.
\<close>

definition match_key_value :: "string \<Rightarrow> (string \<times> string) option" where
  "match_key_value s =
     (case s of
        [] \<Rightarrow> None
      | c # cs \<Rightarrow>
          if \<not> is_key_start c then None
          else
            (case dropWhile is_space (dropWhile is_key_char cs) of
               [] \<Rightarrow> None
             | e # r \<Rightarrow>
                 if e \<noteq> CHR ''='' then None
                 else
                   (let r' = dropWhile is_space r;
                        r'' = (case r' of [] \<Rightarrow> [] | q # qs \<Rightarrow> if is_quote q then qs else r')
                    in map_option (\<lambda>v. (c # takeWhile is_key_char cs, v)) (lazy_value r''))))"

text \<open>
  \<^verbatim>\<open>envRegex.exec(line)\<close>, as the pair of its two groups: leading white space, then the
  optional \<^verbatim>\<open>export\s+\<close>, tried first and skipped when the rest does not match after it.
\<close>

definition envRegex_exec :: "string \<Rightarrow> (string \<times> string) option" where
  "envRegex_exec line =
     (let s = dropWhile is_space line in
      if startsWith s ''export'' \<and> (case drop 6 s of [] \<Rightarrow> False | c # cs \<Rightarrow> is_space c) then
        (case match_key_value (dropWhile is_space (drop 6 s)) of
           Some kv \<Rightarrow> Some kv
         | None \<Rightarrow> match_key_value s)
      else match_key_value s)"

text \<open>\<^verbatim>\<open>content.split("\n")\<close>.\<close>

fun split_lines :: "string \<Rightarrow> string list" where
  "split_lines [] = [[]]"
| "split_lines (c # cs) =
     (if c = CHR 0x0A then [] # split_lines cs
      else (case split_lines cs of [] \<Rightarrow> [[c]] | l # ls \<Rightarrow> (c # l) # ls))"

text \<open>
  \<^verbatim>\<open>process.env\<close> maps names to strings. The body of the inner loop: a line that matches
  assigns its trimmed value when \<^verbatim>\<open>!process.env[key]\<close>, that is when the variable is
  unset or is the empty string (group 2 always takes part in a match, so the test
  \<^verbatim>\<open>value !== undefined\<close> is true).
\<close>

type_synonym environment = "string \<rightharpoonup> string"

definition env_falsy :: "environment \<Rightarrow> string \<Rightarrow> bool" where
  "env_falsy env key = (case env key of None \<Rightarrow> True | Some v \<Rightarrow> v = [])"

definition env_line :: "environment \<Rightarrow> string \<Rightarrow> environment" where
  "env_line env line =
     (case envRegex_exec line of
        None \<Rightarrow> env
      | Some (key, val) \<Rightarrow> if env_falsy env key then env(key \<mapsto> trim val) else env)"

definition env_lines :: "environment \<Rightarrow> string list \<Rightarrow> environment" where
  "env_lines env ls = foldl env_line env ls"

text \<open>
  A candidate file is absent (\<^verbatim>\<open>existsSync\<close> is false), or exists and cannot be read
  (\<^verbatim>\<open>readFileSync\<close> throws, which ends the scan with the variables set so far), or has a
  content.
\<close>

datatype candidate = Absent | Unreadable | Content string

datatype error =
    FileReadError
  | MissingConfig string
  | NetworkError
  | TokenRequestFailed string
  | TokenMissing
  | RequestFailed string
  | TypeError
  | ProductNameRequired
  | NoProductMatched string
  | MultipleProductsMatched string

fun loadEnvFallback_files :: "candidate list \<Rightarrow> environment \<Rightarrow> (error + unit) \<times> environment" where
  "loadEnvFallback_files [] env = (Inr (), env)"
| "loadEnvFallback_files (Absent # fs) env = loadEnvFallback_files fs env"
| "loadEnvFallback_files (Unreadable # fs) env = (Inl FileReadError, env)"
| "loadEnvFallback_files (Content c # fs) env =
     loadEnvFallback_files fs (env_lines env (split_lines c))"

text \<open>
  \<^verbatim>\<open>loadEnvFallback()\<close> over the three candidates in their order: \<^verbatim>\<open>.env\<close> of the
  working directory, \<^verbatim>\<open>.env\<close> of the home directory, \<^verbatim>\<open>.zshrc\<close> of the home
  directory.
\<close>

definition loadEnvFallback ::
  "candidate \<Rightarrow> candidate \<Rightarrow> candidate \<Rightarrow> environment \<Rightarrow> (error + unit) \<times> environment" where
  "loadEnvFallback cwdEnv homeEnv homeZshrc env =
     loadEnvFallback_files [cwdEnv, homeEnv, homeZshrc] env"

text \<open>
  The module constants after the scan: \<^verbatim>\<open>process.env.X || ""\<close>, the base URL
  without one trailing slash (\<^verbatim>\<open>replace(/\/$/, "")\<close>), and the token the cache
  starts with.
\<close>

definition env_or_empty :: "environment \<Rightarrow> string \<Rightarrow> string" where
  "env_or_empty env key = (case env key of None \<Rightarrow> [] | Some v \<Rightarrow> v)"

definition stripTrailingSlash :: "string \<Rightarrow> string" where
  "stripTrailingSlash s = (if s \<noteq> [] \<and> last s = CHR ''/'' then butlast s else s)"

definition module_config :: "environment \<Rightarrow> config" where
  "module_config env =
     \<lparr>baseUrl = stripTrailingSlash (env_or_empty env ''ZENTAO_BASE_URL''),
      account = env_or_empty env ''ZENTAO_ACCOUNT'',
      password = env_or_empty env ''ZENTAO_PASSWORD''\<rparr>"

definition initial_token :: "environment \<Rightarrow> jsval" where
  "initial_token env = Str (env_or_empty env ''ZENTAO_TOKEN'')"

subsection \<open>What the scan leaves in the environment\<close>

text \<open>
  The lines the scan reads, in order: those of the candidates up to the first one that
  cannot be read.
\<close>

fun scanned_lines :: "candidate list \<Rightarrow> string list" where
  "scanned_lines [] = []"
| "scanned_lines (Absent # fs) = scanned_lines fs"
| "scanned_lines (Unreadable # fs) = []"
| "scanned_lines (Content c # fs) = split_lines c @ scanned_lines fs"

text \<open>The trimmed values that the matching lines give a key, in scan order.\<close>

definition assigned_values :: "string list \<Rightarrow> string \<Rightarrow> string list" where
  "assigned_values ls key =
     map (\<lambda>kv. trim (snd kv)) (filter (\<lambda>kv. fst kv = key) (List.map_filter envRegex_exec ls))"

text \<open>
  Precedence: a value of the environment that is not empty stays; otherwise the first
  value of the files that is not empty; otherwise the empty string when a line matched the
  key, and the environment's entry as it was when none did.
\<close>

definition precedence_value :: "environment \<Rightarrow> string list \<Rightarrow> string \<Rightarrow> string option" where
  "precedence_value env vals key =
     (if \<not> env_falsy env key then env key
      else case find (\<lambda>v. v \<noteq> []) vals of
        Some v \<Rightarrow> Some v
      | None \<Rightarrow> if vals = [] then env key else Some [])"

section \<open>Target URLs\<close>

text \<open>\<^verbatim>\<open>path.replace(/^\//, "")\<close>.\<close>

definition stripLeadingSlash :: "string \<Rightarrow> string" where
  "stripLeadingSlash p = (case p of [] \<Rightarrow> [] | c # cs \<Rightarrow> if c = CHR ''/'' then cs else p)"

text \<open>
  \<^verbatim>\<open>URLSearchParams\<close>: a list of name and value pairs; \<^verbatim>\<open>append\<close> adds one at the
  end, \<^verbatim>\<open>toString\<close> is the form-urlencoded serialisation: a space becomes \<^verbatim>\<open>+\<close>,
  letters, digits and \<^verbatim>\<open>*-._\<close> stand for themselves, every other byte is
  \<^verbatim>\<open>%\<close> and two upper-case hexadecimal digits.
\<close>

definition hex_digit :: "nat \<Rightarrow> char" where
  "hex_digit d = ''0123456789ABCDEF'' ! d"

definition form_encode_char :: "char \<Rightarrow> string" where
  "form_encode_char c =
     (if c = CHR '' '' then ''+''
      else if c \<in> set (ascii_letters @ ascii_digits @ ''*-._'') then [c]
      else [CHR ''%'', hex_digit (of_char c div 16), hex_digit (of_char c mod 16)])"

definition form_encode :: "string \<Rightarrow> string" where
  "form_encode s = concat (map form_encode_char s)"

definition usp_append :: "(string \<times> string) list \<Rightarrow> string \<Rightarrow> string \<Rightarrow> (string \<times> string) list" where
  "usp_append usp name val = usp @ [(name, val)]"

definition usp_toString :: "(string \<times> string) list \<Rightarrow> string" where
  "usp_toString usp = joinWith ''&'' (map (\<lambda>(name, val). form_encode name @ ''='' @ form_encode val) usp)"

text \<open>The callback of \<^verbatim>\<open>Object.entries(query).forEach\<close>.\<close>

definition query_entry :: "(string \<times> string) list \<Rightarrow> string \<times> jsval \<Rightarrow> (string \<times> string) list" where
  "query_entry usp e =
     (case e of (key, val) \<Rightarrow>
        if val = Undefined \<or> val = Null then usp else usp_append usp key (toString val))"

definition cleaned :: "config \<Rightarrow> string \<Rightarrow> string" where
  "cleaned cfg path =
     (if startsWith path ''http'' then path
      else baseUrl cfg @ ''/api.php/v1/'' @ stripLeadingSlash path)"

text \<open>
  \<^verbatim>\<open>buildUrl(path, query)\<close>; the query is absent (\<open>None\<close>) or an object.
\<close>

definition buildUrl :: "config \<Rightarrow> string \<Rightarrow> (string \<times> jsval) list option \<Rightarrow> string" where
  "buildUrl cfg path query =
     (case query of
        None \<Rightarrow> cleaned cfg path
      | Some q \<Rightarrow>
          if length q = 0 then cleaned cfg path
          else cleaned cfg path @ ''?'' @ usp_toString (foldl query_entry [] q))"

text \<open>
  The specification's wording of the first step, for comparison: a path that begins with a
  scheme (a letter, then letters, digits, \<^verbatim>\<open>+\<close>, \<^verbatim>\<open>-\<close> or \<^verbatim>\<open>.\<close>, then a colon)
  is the target as it stands.
\<close>

definition spec_begins_with_scheme :: "string \<Rightarrow> bool" where
  "spec_begins_with_scheme p =
     (case p of
        [] \<Rightarrow> False
      | c # cs \<Rightarrow>
          c \<in> set ascii_letters \<and>
          (case dropWhile (\<lambda>d. d \<in> set (ascii_letters @ ascii_digits @ ''+-.'')) cs of
             [] \<Rightarrow> False
           | d # ds \<Rightarrow> d = CHR '':''))"

definition spec_target :: "config \<Rightarrow> string \<Rightarrow> string" where
  "spec_target cfg path =
     (if spec_begins_with_scheme path then path
      else baseUrl cfg @ ''/api.php/v1/'' @ stripLeadingSlash path)"

section \<open>The token cache and the request executor\<close>

text \<open>
  The remote service is a script: the responses it will give to the coming calls of
  \<^verbatim>\<open>fetch\<close>, in order, \<open>None\<close> where \<^verbatim>\<open>fetch\<close> rejects (as it does when the
  script has run out). A response carries its body text and the value
  \<^verbatim>\<open>JSON.parse\<close> gives for that text, \<open>None\<close> when it throws. A request carries the
  value that \<^verbatim>\<open>JSON.stringify\<close> serialises as its body, \<open>None\<close> for
  \<^verbatim>\<open>undefined\<close>. The state is the module variable \<^verbatim>\<open>cachedToken\<close>, the script, and
  the requests sent so far.
\<close>

record response =
  res_status :: nat
  res_statusText :: string
  res_headers :: "(string \<times> string) list"
  res_text :: string
  res_json :: "jsval option"

record request =
  req_url :: string
  req_method :: string
  req_headers :: "(string \<times> jsval) list"
  req_body :: "jsval option"

record state =
  cachedToken :: jsval
  pending :: "response option list"
  sent :: "request list"

definition res_ok :: "response \<Rightarrow> bool" where
  "res_ok res = (200 \<le> res_status res \<and> res_status res \<le> 299)"

definition fetch :: "request \<Rightarrow> state \<Rightarrow> (error + response) \<times> state" where
  "fetch req st =
     (case pending st of
        [] \<Rightarrow> (Inl NetworkError, st\<lparr>sent := sent st @ [req]\<rparr>)
      | r # rs \<Rightarrow>
          (case r of None \<Rightarrow> Inl NetworkError | Some res \<Rightarrow> Inr res,
           st\<lparr>pending := rs, sent := sent st @ [req]\<rparr>))"

text \<open>\<^verbatim>\<open>safeJson(text)\<close> of a response's text.\<close>

definition safeJson :: "response \<Rightarrow> jsval" where
  "safeJson res = (case res_json res of Some v \<Rightarrow> v | None \<Rightarrow> Null)"

definition assertConfig :: "config \<Rightarrow> error + unit" where
  "assertConfig cfg =
     (if baseUrl cfg = [] then Inl (MissingConfig ''Missing ZENTAO_BASE_URL'')
      else if account cfg = [] then Inl (MissingConfig ''Missing ZENTAO_ACCOUNT'')
      else if password cfg = [] then Inl (MissingConfig ''Missing ZENTAO_PASSWORD'')
      else Inr ())"

text \<open>The request of the login exchange.\<close>

definition tokenRequest :: "config \<Rightarrow> request" where
  "tokenRequest cfg =
     \<lparr>req_url = baseUrl cfg @ ''/api.php/v1/tokens'',
      req_method = ''POST'',
      req_headers = [(''Content-Type'', Str ''application/json'')],
      req_body = Some (Obj [(''account'', Str (account cfg)), (''password'', Str (password cfg))])\<rparr>"

definition fetchToken :: "config \<Rightarrow> bool \<Rightarrow> state \<Rightarrow> (error + jsval) \<times> state" where
  "fetchToken cfg forceRefresh st =
     (if truthy (cachedToken st) \<and> \<not> forceRefresh then (Inr (cachedToken st), st)
      else
        (case assertConfig cfg of
           Inl e \<Rightarrow> (Inl e, st)
         | Inr u \<Rightarrow>
             (case fetch (tokenRequest cfg) st of
                (Inl e, st1) \<Rightarrow> (Inl e, st1)
              | (Inr res, st1) \<Rightarrow>
                  if \<not> res_ok res then
                    (Inl (TokenRequestFailed
                       (''Token request failed: '' @ decimal (res_status res) @ '' '' @ res_text res)),
                     st1)
                  else if \<not> truthy (optProp (safeJson res) ''token'') then (Inl TokenMissing, st1)
                  else
                    (Inr (optProp (safeJson res) ''token''),
                     st1\<lparr>cachedToken := optProp (safeJson res) ''token''\<rparr>))))"

text \<open>
  The argument of \<^verbatim>\<open>callZenTao\<close>, with the defaults of its destructuring filled in by
  the caller: \<^verbatim>\<open>method = "GET"\<close>, \<^verbatim>\<open>headers = {}\<close>,
  \<^verbatim>\<open>forceTokenRefresh = false\<close>.
\<close>

record descriptor =
  d_path :: string
  d_method :: string
  d_query :: "(string \<times> jsval) list option"
  d_body :: jsval
  d_headers :: "(string \<times> jsval) list"
  d_forceTokenRefresh :: bool

record envelope =
  e_status :: nat
  e_headers :: "(string \<times> string) list"
  e_data :: jsval

text \<open>
  An object literal with a spread, \<^verbatim>\<open>{ k1: v1, k2: v2, ...headers }\<close>: each property
  of the spread object is assigned in turn; assigning an existing name replaces its value
  in place, a new name is added at the end.
\<close>

fun obj_set :: "(string \<times> jsval) list \<Rightarrow> string \<Rightarrow> jsval \<Rightarrow> (string \<times> jsval) list" where
  "obj_set [] k v = [(k, v)]"
| "obj_set ((k', v') # kvs) k v =
     (if k' = k then (k, v) # kvs else (k', v') # obj_set kvs k v)"

definition obj_spread :: "(string \<times> jsval) list \<Rightarrow> (string \<times> jsval) list \<Rightarrow> (string \<times> jsval) list" where
  "obj_spread base extra = foldl (\<lambda>obj kv. obj_set obj (fst kv) (snd kv)) base extra"

text \<open>The request \<^verbatim>\<open>callZenTao\<close> passes to \<^verbatim>\<open>fetch\<close>.\<close>

definition callRequest :: "config \<Rightarrow> descriptor \<Rightarrow> jsval \<Rightarrow> request" where
  "callRequest cfg d token =
     \<lparr>req_url = buildUrl cfg (d_path d) (d_query d),
      req_method = d_method d,
      req_headers =
        obj_spread [(''Content-Type'', Str ''application/json''), (''Token'', token)] (d_headers d),
      req_body = (if truthy (d_body d) then Some (d_body d) else None)\<rparr>"

definition failure_text :: "response \<Rightarrow> string" where
  "failure_text res =
     (if res_text res \<noteq> [] then res_text res
      else if res_statusText res \<noteq> [] then res_statusText res
      else ''unknown'')"

text \<open>\<^verbatim>\<open>data ?? text\<close>, the \<^verbatim>\<open>data\<close> of the envelope.\<close>

definition response_data :: "response \<Rightarrow> jsval" where
  "response_data res = (if nullish (safeJson res) then Str (res_text res) else safeJson res)"

definition callZenTao :: "config \<Rightarrow> descriptor \<Rightarrow> state \<Rightarrow> (error + envelope) \<times> state" where
  "callZenTao cfg d st =
     (case assertConfig cfg of
        Inl e \<Rightarrow> (Inl e, st)
      | Inr u \<Rightarrow>
          (case fetchToken cfg (d_forceTokenRefresh d) st of
             (Inl e, st1) \<Rightarrow> (Inl e, st1)
           | (Inr token, st1) \<Rightarrow>
               (case fetch (callRequest cfg d token) st1 of
                  (Inl e, st2) \<Rightarrow> (Inl e, st2)
                | (Inr res, st2) \<Rightarrow>
                    if \<not> res_ok res then
                      (Inl (RequestFailed
                         (''Request failed '' @ decimal (res_status res) @ '': '' @ failure_text res)),
                       st2)
                    else
                      (Inr \<lparr>e_status = res_status res,
                            e_headers = res_headers res,
                            e_data = response_data res\<rparr>,
                       st2))))"

text \<open>\<^verbatim>\<open>callZenTao({ path })\<close> and \<^verbatim>\<open>callZenTao({ path, query })\<close>.\<close>

definition get_request :: "string \<Rightarrow> descriptor" where
  "get_request p =
     \<lparr>d_path = p, d_method = ''GET'', d_query = None, d_body = Undefined, d_headers = [],
      d_forceTokenRefresh = False\<rparr>"

definition get_query :: "string \<Rightarrow> (string \<times> jsval) list \<Rightarrow> descriptor" where
  "get_query p q = (get_request p)\<lparr>d_query := Some q\<rparr>"

section \<open>Reading loosely typed records\<close>

text \<open>
  \<^verbatim>\<open>v.k\<close>: a type error on \<^verbatim>\<open>null\<close> and \<^verbatim>\<open>undefined\<close>. \<^verbatim>\<open>v.toLowerCase()\<close>:
  a type error unless \<open>v\<close> is a string. Callbacks that can throw end the traversal
  (\<^verbatim>\<open>filter\<close>, \<^verbatim>\<open>find\<close>, \<^verbatim>\<open>map\<close>) with their error.
\<close>

fun getProp :: "jsval \<Rightarrow> string \<Rightarrow> error + jsval" where
  "getProp Undefined k = Inl TypeError"
| "getProp Null k = Inl TypeError"
| "getProp v k = Inr (optProp v k)"

fun js_toLowerCase :: "jsval \<Rightarrow> error + string" where
  "js_toLowerCase (Str s) = Inr (toLowerCase s)"
| "js_toLowerCase v = Inl TypeError"

fun filterE :: "('a \<Rightarrow> error + bool) \<Rightarrow> 'a list \<Rightarrow> error + 'a list" where
  "filterE f [] = Inr []"
| "filterE f (x # xs) =
     (case f x of
        Inl e \<Rightarrow> Inl e
      | Inr b \<Rightarrow>
          (case filterE f xs of
             Inl e \<Rightarrow> Inl e
           | Inr ys \<Rightarrow> Inr (if b then x # ys else ys)))"

fun findE :: "('a \<Rightarrow> error + bool) \<Rightarrow> 'a list \<Rightarrow> error + 'a option" where
  "findE f [] = Inr None"
| "findE f (x # xs) =
     (case f x of
        Inl e \<Rightarrow> Inl e
      | Inr b \<Rightarrow> if b then Inr (Some x) else findE f xs)"

fun mapE :: "('a \<Rightarrow> error + 'b) \<Rightarrow> 'a list \<Rightarrow> error + 'b list" where
  "mapE f [] = Inr []"
| "mapE f (x # xs) =
     (case f x of
        Inl e \<Rightarrow> Inl e
      | Inr y \<Rightarrow> (case mapE f xs of Inl e \<Rightarrow> Inl e | Inr ys \<Rightarrow> Inr (y # ys)))"

text \<open>\<^verbatim>\<open>xs[0]\<close>.\<close>

definition index0 :: "jsval list \<Rightarrow> jsval" where
  "index0 xs = (case xs of [] \<Rightarrow> Undefined | x # rest \<Rightarrow> x)"

subsection \<open>Identity strings\<close>

definition identity_fields :: "jsval \<Rightarrow> string list" where
  "identity_fields v =
     map toString
       (filter (\<lambda>x. x \<noteq> Undefined \<and> x \<noteq> Null)
          (map (optProp v)
             [''account'', ''name'', ''realname'', ''realName'', ''username'', ''user'', ''id'']))"

definition normalizeAccount :: "jsval \<Rightarrow> string list" where
  "normalizeAccount v =
     (if \<not> truthy v then []
      else
        filter (\<lambda>x. length x > 0 \<and> x \<noteq> ''[object object]'')
          (map (\<lambda>x. toLowerCase (trim x))
             (case v of
                Str s \<Rightarrow> [toString v]
              | Num n \<Rightarrow> [toString v]
              | Arr xs \<Rightarrow> identity_fields v
              | Obj kvs \<Rightarrow> identity_fields v
              | _ \<Rightarrow> [])))"

subsection \<open>Image links\<close>

text \<open>
  \<^verbatim>\<open>/<img[^>]+src=["']?([^"'>\s]+)["']?[^>]*>/gi\<close> at the start of a string. After
  \<^verbatim>\<open><img\<close> the greedy \<^verbatim>\<open>[^>]+\<close> runs to the next \<^verbatim>\<open>>\<close> and gives
  characters back until \<^verbatim>\<open>src=\<close> and a non-empty group follow: the match takes the last
  such \<^verbatim>\<open>src=\<close> of the tag, at least one character after \<^verbatim>\<open><img\<close>. The result is
  group 1 and the number of characters of the match after its first.
\<close>

definition ci_prefix :: "string \<Rightarrow> string \<Rightarrow> bool" where
  "ci_prefix lit s = (toLowerCase (take (length lit) s) = lit)"

definition is_src_char :: "char \<Rightarrow> bool" where
  "is_src_char c = (\<not> is_quote c \<and> c \<noteq> CHR ''>'' \<and> \<not> is_space c)"

definition src_group :: "string \<Rightarrow> string" where
  "src_group g =
     takeWhile is_src_char (case g of [] \<Rightarrow> [] | q # qs \<Rightarrow> if is_quote q then qs else g)"

definition img_match :: "string \<Rightarrow> (string \<times> nat) option" where
  "img_match s =
     (if \<not> ci_prefix ''<img'' s then None
      else
        (let run = takeWhile (\<lambda>c. c \<noteq> CHR ''>'') (drop 4 s) in
         if dropWhile (\<lambda>c. c \<noteq> CHR ''>'') (drop 4 s) = [] then None
         else
           (case find (\<lambda>j. ci_prefix ''src='' (drop j run) \<and> src_group (drop (j + 4) run) \<noteq> [])
                   (rev [1..<Suc (length run)]) of
              None \<Rightarrow> None
            | Some j \<Rightarrow> Some (src_group (drop (j + 4) run), 4 + length run))))"

text \<open>
  The loop \<^verbatim>\<open>while ((match = regex.exec(html)))\<close> of \<^verbatim>\<open>parseImageSources\<close>: each
  search starts where the last match ended, and a match is kept when its group begins with
  \<^verbatim>\<open>http://\<close> or \<^verbatim>\<open>https://\<close> in any case.
\<close>

fun parseImageSources :: "string \<Rightarrow> string list" where
  "parseImageSources [] = []"
| "parseImageSources (c # cs) =
     (case img_match (c # cs) of
        None \<Rightarrow> parseImageSources cs
      | Some (u, n) \<Rightarrow>
          (if u \<noteq> [] \<and> (ci_prefix ''http://'' u \<or> ci_prefix ''https://'' u) then [u] else [])
          @ parseImageSources (drop n cs))"

section \<open>Products and bugs\<close>

text \<open>\<^verbatim>\<open>`${p.name || ""}`.toLowerCase()\<close>.\<close>

definition nameLower :: "jsval \<Rightarrow> error + string" where
  "nameLower p =
     (case getProp p ''name'' of
        Inl e \<Rightarrow> Inl e
      | Inr n \<Rightarrow> Inr (toLowerCase (toString (js_or n (Str [])))))"

text \<open>The filter callback of \<^verbatim>\<open>listProducts\<close>.\<close>

definition nameIncludes :: "jsval \<Rightarrow> jsval \<Rightarrow> error + bool" where
  "nameIncludes keyword p =
     (case nameLower p of
        Inl e \<Rightarrow> Inl e
      | Inr n \<Rightarrow>
          (case js_toLowerCase keyword of
             Inl e \<Rightarrow> Inl e
           | Inr k \<Rightarrow> Inr (str_includes n k)))"

definition listProducts :: "config \<Rightarrow> jsval \<Rightarrow> nat \<Rightarrow> state \<Rightarrow> (error + jsval list) \<times> state" where
  "listProducts cfg keyword limit st =
     (case callZenTao cfg
             (get_query ''products''
                [(''page'', Num 1), (''limit'', Num (int limit)), (''keywords'', keyword)]) st of
        (Inl e, st1) \<Rightarrow> (Inl e, st1)
      | (Inr res, st1) \<Rightarrow>
          (case (if truthy keyword
                 then filterE (nameIncludes keyword) (extractArray (e_data res) [''products''])
                 else Inr (extractArray (e_data res) [''products''])) of
             Inl e \<Rightarrow> (Inl e, st1)
           | Inr filtered \<Rightarrow> (Inr (take limit filtered), st1)))"

text \<open>
  \<^verbatim>\<open>findProductByName\<close> after its candidates have arrived: the pair of
  \<^verbatim>\<open>product\<close> and \<^verbatim>\<open>matches\<close>.
\<close>

definition exactName :: "jsval \<Rightarrow> jsval \<Rightarrow> error + bool" where
  "exactName name p =
     (case nameLower p of
        Inl e \<Rightarrow> Inl e
      | Inr n \<Rightarrow> (case js_toLowerCase name of Inl e \<Rightarrow> Inl e | Inr q \<Rightarrow> Inr (n = q)))"

definition pickProduct :: "jsval \<Rightarrow> jsval list \<Rightarrow> error + jsval \<times> jsval list" where
  "pickProduct name candidates =
     (case findE (exactName name) candidates of
        Inl e \<Rightarrow> Inl e
      | Inr found \<Rightarrow>
          (let exact = (case found of Some p \<Rightarrow> p | None \<Rightarrow> Undefined) in
           if truthy exact then Inr (exact, candidates)
           else if length candidates = 1 then Inr (index0 candidates, candidates)
           else Inr (Undefined, candidates)))"

definition findProductByName ::
  "config \<Rightarrow> jsval \<Rightarrow> state \<Rightarrow> (error + jsval \<times> jsval list) \<times> state" where
  "findProductByName cfg name st =
     (if \<not> truthy name then (Inl ProductNameRequired, st)
      else
        (case listProducts cfg name 50 st of
           (Inl e, st1) \<Rightarrow> (Inl e, st1)
         | (Inr candidates, st1) \<Rightarrow> (pickProduct name candidates, st1)))"

text \<open>The error of the \<^verbatim>\<open>getMyBug\<close> branch when no product is resolved.\<close>

definition idName :: "jsval \<Rightarrow> error + string" where
  "idName p =
     (case getProp p ''id'' of
        Inl e \<Rightarrow> Inl e
      | Inr i \<Rightarrow> Inr (toString i @ '':'' @ toString (optProp p ''name'')))"

definition resolutionError :: "jsval \<Rightarrow> jsval list \<Rightarrow> error" where
  "resolutionError productName matches =
     (case mapE idName matches of
        Inl e \<Rightarrow> e
      | Inr names \<Rightarrow>
          if length matches = 0 then
            NoProductMatched (''No product matched '' @ [CHR 0x22] @ toString productName @ [CHR 0x22])
          else
            MultipleProductsMatched
              (''Multiple products matched '' @ [CHR 0x22] @ toString productName @ [CHR 0x22]
               @ '', please specify one of: '' @ joinWith '', '' names))"

text \<open>The filter callback of \<^verbatim>\<open>fetchBugsByProduct\<close>.\<close>

definition bugMatches :: "config \<Rightarrow> jsval \<Rightarrow> bool \<Rightarrow> jsval \<Rightarrow> jsval \<Rightarrow> error + bool" where
  "bugMatches cfg keyword allStatuses status bug =
     (case getProp bug ''assignedTo'' of
        Inl e \<Rightarrow> Inl e
      | Inr assignedTo \<Rightarrow>
          (let assignedCandidates =
                 normalizeAccount assignedTo
                 @ normalizeAccount (optProp bug ''assignedToName'')
                 @ normalizeAccount (optProp bug ''assignedToRealname'');
               accountLower = toLowerCase (trim (account cfg));
               statusLower = (if truthy status then Str (toLowerCase (trim (toString status))) else Null);
               matchAssignee = (if accountLower \<noteq> [] then accountLower \<in> set assignedCandidates else True)
           in
             (case (if truthy keyword then
                      (case js_toLowerCase keyword of
                         Inl e \<Rightarrow> Inl e
                       | Inr k \<Rightarrow>
                           Inr (str_includes
                                  (toLowerCase (toString
                                     (js_or (js_or (optProp bug ''title'') (optProp bug ''name'')) (Str []))))
                                  k))
                    else Inr True) of
                Inl e \<Rightarrow> Inl e
              | Inr matchKeyword \<Rightarrow>
                  Inr (matchAssignee \<and> matchKeyword
                       \<and> (if allStatuses then True
                           else if truthy statusLower then
                             Str (toLowerCase (trim (toString
                                    (js_or (js_or (optProp bug ''status'') (optProp bug ''state'')) (Str [])))))
                             = statusLower
                           else True)))))"

text \<open>
  \<^verbatim>\<open>fetchBugsByProduct\<close>, with the defaults \<^verbatim>\<open>allStatuses = false\<close>,
  \<^verbatim>\<open>limit = 20\<close>, \<^verbatim>\<open>page = 1\<close> filled in by the caller; the result is the pair of
  \<^verbatim>\<open>bugs\<close> and \<^verbatim>\<open>raw\<close>.
\<close>

definition fetchBugsByProduct ::
  "config \<Rightarrow> jsval \<Rightarrow> jsval \<Rightarrow> bool \<Rightarrow> jsval \<Rightarrow> jsval \<Rightarrow> jsval \<Rightarrow> state
     \<Rightarrow> (error + jsval list \<times> jsval) \<times> state" where
  "fetchBugsByProduct cfg productId keyword allStatuses status limit page st =
     (case callZenTao cfg
             (get_query ''bugs''
                [(''page'', page), (''limit'', limit), (''product'', productId), (''keywords'', keyword)])
             st of
        (Inl e, st1) \<Rightarrow> (Inl e, st1)
      | (Inr res, st1) \<Rightarrow>
          (case filterE (bugMatches cfg keyword allStatuses status)
                  (extractArray (e_data res) [''bugs'']) of
             Inl e \<Rightarrow> (Inl e, st1)
           | Inr filtered \<Rightarrow> (Inr (filtered, e_data res), st1)))"

text \<open>
  \<^verbatim>\<open>getBugWithImages\<close>: the result \<^verbatim>\<open>{ ...bug, stepsHtml, stepsImages }\<close> as its three
  parts.
\<close>

record bug_detail =
  bd_bug :: jsval
  bd_stepsHtml :: jsval
  bd_stepsImages :: "string list"

definition detailOf :: "jsval \<Rightarrow> bug_detail" where
  "detailOf data =
     (let bug = js_or data (Obj []);
          stepsHtml = js_or (js_or (optProp bug ''steps'') (optProp bug ''stepsHtml'')) (Str [])
      in \<lparr>bd_bug = bug, bd_stepsHtml = stepsHtml,
           bd_stepsImages = parseImageSources (toString stepsHtml)\<rparr>)"

definition getBugWithImages :: "config \<Rightarrow> jsval \<Rightarrow> state \<Rightarrow> (error + bug_detail) \<times> state" where
  "getBugWithImages cfg bugId st =
     (case callZenTao cfg (get_request (''bugs/'' @ toString bugId)) st of
        (Inl e, st1) \<Rightarrow> (Inl e, st1)
      | (Inr res, st1) \<Rightarrow> (Inr (detailOf (e_data res)), st1))"

section \<open>Tool handlers\<close>

text \<open>
  What a handler returns, before \<^verbatim>\<open>JSON.stringify\<close>: a plain text, or the value it
  serialises.
\<close>

datatype tool_result =
    Message string
  | MyBug jsval jsval bug_detail
  | NextBug bug_detail
  | BugStats jsval nat nat

text \<open>\<^verbatim>\<open>bugs[0].id || bugs[0].bugId\<close>.\<close>

definition firstBugId :: "jsval list \<Rightarrow> error + jsval" where
  "firstBugId bugs =
     (case getProp (index0 bugs) ''id'' of
        Inl e \<Rightarrow> Inl e
      | Inr i \<Rightarrow> if truthy i then Inr i else getProp (index0 bugs) ''bugId'')"

definition noBugsText :: "config \<Rightarrow> string" where
  "noBugsText cfg = ''No active bugs assigned to '' @ (if account cfg \<noteq> [] then account cfg else ''me'')"

text \<open>The branch \<^verbatim>\<open>getMyBug\<close>.\<close>

definition getMyBug ::
  "config \<Rightarrow> jsval \<Rightarrow> jsval \<Rightarrow> jsval \<Rightarrow> bool \<Rightarrow> state \<Rightarrow> (error + tool_result) \<times> state" where
  "getMyBug cfg productName keyword status allStatuses st =
     (case findProductByName cfg productName st of
        (Inl e, st1) \<Rightarrow> (Inl e, st1)
      | (Inr (product, matches), st1) \<Rightarrow>
          if \<not> truthy product then (Inl (resolutionError productName matches), st1)
          else
            (case fetchBugsByProduct cfg (optProp product ''id'') keyword allStatuses status
                    (Num 1) (Num 1) st1 of
               (Inl e, st2) \<Rightarrow> (Inl e, st2)
             | (Inr (bugs, raw), st2) \<Rightarrow>
                 if length bugs = 0 then
                   (Inr (Message (noBugsText cfg @ '' in product '' @ [CHR 0x22]
                                  @ toString (optProp product ''name'') @ [CHR 0x22])),
                    st2)
                 else
                   (case firstBugId bugs of
                      Inl e \<Rightarrow> (Inl e, st2)
                    | Inr bugId \<Rightarrow>
                        (case getBugWithImages cfg bugId st2 of
                           (Inl e, st3) \<Rightarrow> (Inl e, st3)
                         | (Inr detail, st3) \<Rightarrow>
                             (Inr (MyBug (optProp product ''id'') (optProp product ''name'') detail),
                              st3)))))"

text \<open>
  The branch \<^verbatim>\<open>getNextBug\<close>: the loop \<^verbatim>\<open>while (page <= 10)\<close> from the page it has
  reached, and the branch itself, which starts it at page 1.
\<close>

function getNextBug_pages ::
  "config \<Rightarrow> jsval \<Rightarrow> jsval \<Rightarrow> jsval \<Rightarrow> nat \<Rightarrow> state \<Rightarrow> (error + tool_result) \<times> state" where
  "getNextBug_pages cfg productId keyword status page st =
     (if page \<le> 10 then
        (case fetchBugsByProduct cfg productId keyword False status (Num 20) (Num (int page)) st of
           (Inl e, st1) \<Rightarrow> (Inl e, st1)
         | (Inr (bugs, raw), st1) \<Rightarrow>
             if length bugs \<noteq> 0 then
               (case firstBugId bugs of
                  Inl e \<Rightarrow> (Inl e, st1)
                | Inr bugId \<Rightarrow>
                    (case getBugWithImages cfg bugId st1 of
                       (Inl e, st2) \<Rightarrow> (Inl e, st2)
                     | (Inr detail, st2) \<Rightarrow> (Inr (NextBug detail), st2)))
             else getNextBug_pages cfg productId keyword status (page + 1) st1)
      else
        (Inr (Message (noBugsText cfg @ '' found under product '' @ toString productId)), st))"
  by pat_completeness auto
termination
  by (relation "measure (\<lambda>(cfg, productId, keyword, status, page, st). 11 - page)") auto

definition getNextBug ::
  "config \<Rightarrow> jsval \<Rightarrow> jsval \<Rightarrow> jsval \<Rightarrow> state \<Rightarrow> (error + tool_result) \<times> state" where
  "getNextBug cfg productId keyword status st = getNextBug_pages cfg productId keyword status 1 st"

text \<open>The branch \<^verbatim>\<open>getBugStats\<close>.\<close>

definition isActive :: "jsval \<Rightarrow> error + bool" where
  "isActive b =
     (case getProp b ''status'' of
        Inl e \<Rightarrow> Inl e
      | Inr s \<Rightarrow>
          (case js_toLowerCase (js_or (js_or s (optProp b ''state'')) (Str [])) of
             Inl e \<Rightarrow> Inl e
           | Inr l \<Rightarrow> Inr (l = ''active'')))"

definition getBugStats ::
  "config \<Rightarrow> jsval \<Rightarrow> bool \<Rightarrow> state \<Rightarrow> (error + tool_result) \<times> state" where
  "getBugStats cfg productId activeOnly st =
     (case fetchBugsByProduct cfg productId Undefined (\<not> activeOnly) Undefined (Num 200) (Num 1) st of
        (Inl e, st1) \<Rightarrow> (Inl e, st1)
      | (Inr (bugs, raw), st1) \<Rightarrow>
          (case filterE isActive bugs of
             Inl e \<Rightarrow> (Inl e, st1)
           | Inr active \<Rightarrow> (Inr (BugStats productId (length bugs) (length active)), st1)))"

subsection \<open>The pages that the next-bug loop examines\<close>

text \<open>
  The request for one page of bugs, the matching bugs of a page response, and the number
  of requests sent so far for a page of bugs (a target that begins with the base URL, the
  prefix and \<^verbatim>\<open>bugs?\<close>).
\<close>

definition pageRequest :: "config \<Rightarrow> jsval \<Rightarrow> jsval \<Rightarrow> jsval \<Rightarrow> nat \<Rightarrow> request" where
  "pageRequest cfg token productId keyword page =
     callRequest cfg
       (get_query ''bugs''
          [(''page'', Num (int page)), (''limit'', Num 20), (''product'', productId),
           (''keywords'', keyword)])
       token"

definition page_bugs :: "config \<Rightarrow> jsval \<Rightarrow> jsval \<Rightarrow> response \<Rightarrow> error + jsval list" where
  "page_bugs cfg keyword status res =
     filterE (bugMatches cfg keyword False status) (extractArray (response_data res) [''bugs''])"

definition is_page_request :: "config \<Rightarrow> request \<Rightarrow> bool" where
  "is_page_request cfg r = startsWith (req_url r) (baseUrl cfg @ ''/api.php/v1/bugs?'')"

definition pages_sent :: "config \<Rightarrow> state \<Rightarrow> nat" where
  "pages_sent cfg st = length (filter (is_page_request cfg) (sent st))"

section \<open>Example data\<close>

text \<open>
  A complete configuration, and responses of the remote service, for the examples. The
  body text of a response that parses is read only through its parsed value, so the
  examples leave it unspelled.
\<close>

definition demo_config :: config where
  "demo_config = \<lparr>baseUrl = ''https://zt.example.com'', account = ''alice'', password = ''pw''\<rparr>"

definition json_response :: "jsval \<Rightarrow> response" where
  "json_response v =
     \<lparr>res_status = 200, res_statusText = ''OK'', res_headers = [], res_text = ''(json)'',
      res_json = Some v\<rparr>"

definition demo_login :: response where
  "demo_login = json_response (Obj [(''token'', Str ''t0k3n'')])"

definition demo_boom :: response where
  "demo_boom =
     \<lparr>res_status = 500, res_statusText = ''Internal Server Error'', res_headers = [],
      res_text = ''boom'', res_json = None\<rparr>"

definition demo_foo :: jsval where
  "demo_foo = Obj [(''id'', Num 1), (''name'', Str ''Foo'')]"

definition demo_foobar :: jsval where
  "demo_foobar = Obj [(''id'', Num 2), (''name'', Str ''Foobar'')]"

definition demo_foobaz :: jsval where
  "demo_foobaz = Obj [(''id'', Num 3), (''name'', Str ''Foobaz'')]"

definition demo_bug_active :: jsval where
  "demo_bug_active =
     Obj [(''id'', Num 7), (''title'', Str ''Crash on save''),
          (''assignedTo'', Obj [(''account'', Str ''Alice'')]), (''status'', Str ''active'')]"

definition demo_bug_other :: jsval where
  "demo_bug_other =
     Obj [(''id'', Num 8), (''title'', Str ''Typo''), (''assignedTo'', Str ''bob''),
          (''status'', Str ''active'')]"

definition demo_bug_resolved :: jsval where
  "demo_bug_resolved =
     Obj [(''bugId'', Num 9), (''title'', Str ''Slow list''), (''assignedTo'', Str ''ALICE''),
          (''status'', Str ''resolved'')]"

definition warm :: "response option list \<Rightarrow> state" where
  "warm script = \<lparr>cachedToken = Str ''abc'', pending = script, sent = []\<rparr>"

definition demo_page_other :: response where
  "demo_page_other = json_response (Obj [(''bugs'', Arr [demo_bug_other])])"

definition demo_page_hit :: response where
  "demo_page_hit = json_response (Obj [(''bugs'', Arr [demo_bug_other, demo_bug_active, demo_bug_resolved])])"

definition demo_detail :: response where
  "demo_detail =
     json_response
       (Obj [(''id'', Num 7), (''title'', Str ''Crash on save''),
             (''steps'', Str ''<p>Open</p><img src=https://zt.example.com/f/1.png>'')])"

definition demo_products_page :: response where
  "demo_products_page = json_response (Obj [(''products'', Arr [demo_foobar, demo_foobaz])])"

definition demo_products_request :: request where
  "demo_products_request =
     callRequest demo_config
       (get_query ''products'' [(''page'', Num 1), (''limit'', Num 50), (''keywords'', Str ''Foo'')])
       (Str ''abc'')"

section \<open>Properties\<close>

subsection \<open>List extraction\<close>

lemma extractArray_keys_find:
  "extractArray_keys payload keys =
     map_option (\<lambda>k. elems (optProp payload k)) (find (\<lambda>k. isArray (optProp payload k)) keys)"
  by (induction keys) simp_all

text \<open>
  C7. For every payload and every list of candidate keys, \<open>extractArray\<close> returns the
  payload's own elements when the payload is an array; otherwise the array under the first
  candidate key, in the caller's order, whose value is an array; otherwise the array under
  the key \<^verbatim>\<open>data\<close>; otherwise the empty sequence. The payload \<^verbatim>\<open>{bugs: [a, b]}\<close> with
  candidate key \<^verbatim>\<open>bugs\<close> gives \<^verbatim>\<open>[a, b]\<close>, a bare array gives itself, and a shape
  that matches nothing gives the empty sequence.
\<close>

theorem extractArray_precedence:
  "extractArray payload keys =
     (case payload of
        Arr xs \<Rightarrow> xs
      | _ \<Rightarrow>
        (case find (\<lambda>k. isArray (optProp payload k)) keys of
           Some k \<Rightarrow> elems (optProp payload k)
         | None \<Rightarrow>
           (case optProp payload ''data'' of Arr ys \<Rightarrow> ys | _ \<Rightarrow> [])))
   \<and> extractArray (Obj [(''bugs'', Arr [a, b])]) [''bugs''] = [a, b]
   \<and> extractArray (Arr xs) keys = xs
   \<and> extractArray (Obj [(''total'', Num 3)]) [''bugs''] = []"
proof -
  have general: "extractArray payload keys =
     (case payload of
        Arr xs \<Rightarrow> xs
      | _ \<Rightarrow>
        (case find (\<lambda>k. isArray (optProp payload k)) keys of
           Some k \<Rightarrow> elems (optProp payload k)
         | None \<Rightarrow>
           (case optProp payload ''data'' of Arr ys \<Rightarrow> ys | _ \<Rightarrow> [])))"
    by (cases payload; cases "optProp payload ''data''")
       (simp_all add: extractArray_def extractArray_keys_find split: option.splits)
  have ex1: "extractArray (Obj [(''bugs'', Arr [a, b])]) [''bugs''] = [a, b]"
    by (simp add: extractArray_def)
  have ex2: "extractArray (Arr xs) keys = xs"
    by (simp add: extractArray_def)
  have ex3: "extractArray (Obj [(''total'', Num 3)]) [''bugs''] = []"
    by (simp add: extractArray_def)
  from general ex1 ex2 ex3 show ?thesis by blast
qed

subsection \<open>Target URLs\<close>

lemma query_entry_pair:
  "query_entry usp (k, v) = (if nullish v then usp else usp @ [(k, toString v)])"
  by (cases v) (simp_all add: query_entry_def usp_append_def)

lemma foldl_query_entry:
  "foldl query_entry usp q =
     usp @ map (\<lambda>(k, v). (k, toString v)) (filter (\<lambda>(k, v). \<not> nullish v) q)"
proof (induction q arbitrary: usp)
  case Nil
  then show ?case by simp
next
  case (Cons e q)
  obtain k v where e: "e = (k, v)" by (cases e)
  show ?case
    by (simp add: Cons.IH e query_entry_pair)
qed

text \<open>
  C3, as the code has it. The target of a path that begins with the four characters
  \<^verbatim>\<open>http\<close> is the path as it stands; the target of any other path is the base URL,
  the prefix \<^verbatim>\<open>/api.php/v1/\<close> and the path without one leading slash. A path that
  begins with neither \<^verbatim>\<open>http\<close> nor a slash has the same target with and without a
  leading slash, for every query; so have \<^verbatim>\<open>/projects\<close> and \<^verbatim>\<open>projects\<close>.
\<close>

theorem buildUrl_target:
  "buildUrl cfg path None =
     (if startsWith path ''http'' then path
      else baseUrl cfg @ ''/api.php/v1/'' @ (case path of [] \<Rightarrow> [] | c # cs \<Rightarrow> if c = CHR ''/'' then cs else path))
   \<and> (\<not> startsWith p ''http'' \<and> \<not> startsWith p ''/'' \<longrightarrow>
        buildUrl cfg (CHR ''/'' # p) query = buildUrl cfg p query)
   \<and> buildUrl cfg ''/projects'' query = buildUrl cfg ''projects'' query"
proof -
  have a: "buildUrl cfg path None =
     (if startsWith path ''http'' then path
      else baseUrl cfg @ ''/api.php/v1/'' @ (case path of [] \<Rightarrow> [] | c # cs \<Rightarrow> if c = CHR ''/'' then cs else path))"
    by (simp add: buildUrl_def cleaned_def stripLeadingSlash_def)
  have b: "cleaned cfg (CHR ''/'' # p) = cleaned cfg p"
    if "\<not> startsWith p ''http''" "\<not> startsWith p ''/''"
  proof (cases p)
    case Nil
    then show ?thesis by (simp add: cleaned_def startsWith_def stripLeadingSlash_def)
  next
    case (Cons c cs)
    then show ?thesis
      using that by (simp add: cleaned_def startsWith_def stripLeadingSlash_def)
  qed
  have c: "cleaned cfg ''/projects'' = cleaned cfg ''projects''"
    by (simp add: cleaned_def startsWith_def stripLeadingSlash_def)
  have b': "buildUrl cfg (CHR ''/'' # p) query = buildUrl cfg p query"
    if "\<not> startsWith p ''http''" "\<not> startsWith p ''/''"
    by (simp add: buildUrl_def b [OF that] split: option.splits)
  have c': "buildUrl cfg ''/projects'' query = buildUrl cfg ''projects'' query"
    by (simp add: buildUrl_def c split: option.splits)
  from a b' c' show ?thesis
    by blast
qed

theorem buildUrl_target_witness:
  "\<not> startsWith ''bugs/7'' ''http'' \<and> \<not> startsWith ''bugs/7'' ''/''
   \<and> buildUrl \<lparr>baseUrl = ''https://zt.example.com'', account = ''alice'', password = ''pw''\<rparr>
        ''/bugs/7'' None = ''https://zt.example.com/api.php/v1/bugs/7''
   \<and> buildUrl \<lparr>baseUrl = ''https://zt.example.com'', account = ''alice'', password = ''pw''\<rparr>
        ''bugs/7'' None = ''https://zt.example.com/api.php/v1/bugs/7''
   \<and> buildUrl \<lparr>baseUrl = ''https://zt.example.com'', account = ''alice'', password = ''pw''\<rparr>
        ''https://other.example.com/x'' None = ''https://other.example.com/x''"
  using buildUrl_target [of "\<lparr>baseUrl = ''https://zt.example.com'', account = ''alice'', password = ''pw''\<rparr>"
      "''bugs/7''" "''bugs/7''" None]
    buildUrl_target [of "\<lparr>baseUrl = ''https://zt.example.com'', account = ''alice'', password = ''pw''\<rparr>"
      "''https://other.example.com/x''" "''bugs/7''" None]
  by (simp add: startsWith_def)

text \<open>
  The claim as the specification words it fails: a path that begins with a scheme other
  than \<^verbatim>\<open>http\<close> or \<^verbatim>\<open>https\<close> is not used as it stands, and a path that begins with
  the letters \<^verbatim>\<open>http\<close> and has no scheme is.
\<close>

theorem buildUrl_scheme_counterexample:
  "spec_begins_with_scheme ''ftp://files.example.com/a''
   \<and> buildUrl \<lparr>baseUrl = ''https://zt.example.com'', account = ''alice'', password = ''pw''\<rparr>
        ''ftp://files.example.com/a'' None
       = ''https://zt.example.com/api.php/v1/ftp://files.example.com/a''
   \<and> spec_target \<lparr>baseUrl = ''https://zt.example.com'', account = ''alice'', password = ''pw''\<rparr>
        ''ftp://files.example.com/a''
       = ''ftp://files.example.com/a''
   \<and> \<not> spec_begins_with_scheme ''httpd/status''
   \<and> buildUrl \<lparr>baseUrl = ''https://zt.example.com'', account = ''alice'', password = ''pw''\<rparr>
        ''httpd/status'' None
       = ''httpd/status''
   \<and> spec_target \<lparr>baseUrl = ''https://zt.example.com'', account = ''alice'', password = ''pw''\<rparr>
        ''httpd/status''
       = ''https://zt.example.com/api.php/v1/httpd/status''"
  by (simp add: spec_begins_with_scheme_def spec_target_def buildUrl_def cleaned_def
      startsWith_def stripLeadingSlash_def ascii_letters_def ascii_digits_def)

text \<open>
  C6. An absent query and an empty query mapping leave the target without a query string.
  For any other mapping the target is followed by \<^verbatim>\<open>?\<close> and the entries whose value is
  neither \<^verbatim>\<open>null\<close> nor \<^verbatim>\<open>undefined\<close>, in their order, each as the encoded name,
  \<^verbatim>\<open>=\<close> and the encoded string of the value, joined by \<^verbatim>\<open>&\<close>; an entry whose value
  is \<^verbatim>\<open>null\<close> or \<^verbatim>\<open>undefined\<close> contributes nothing.
\<close>

theorem buildUrl_query:
  "buildUrl cfg path None = cleaned cfg path
   \<and> buildUrl cfg path (Some []) = cleaned cfg path
   \<and> (q \<noteq> [] \<longrightarrow>
        buildUrl cfg path (Some q) =
          cleaned cfg path @ ''?'' @
          joinWith ''&''
            (map (\<lambda>(k, v). form_encode k @ ''='' @ form_encode (toString v))
               (filter (\<lambda>(k, v). v \<noteq> Null \<and> v \<noteq> Undefined) q)))"
proof -
  have same: "(\<lambda>(k, v). v \<noteq> Null \<and> v \<noteq> Undefined) = (\<lambda>(k :: string, v). \<not> nullish v)"
  proof (rule ext)
    fix e :: "string \<times> jsval"
    obtain k v where "e = (k, v)" by (cases e)
    then show "(case e of (k, v) \<Rightarrow> v \<noteq> Null \<and> v \<noteq> Undefined) = (case e of (k, v) \<Rightarrow> \<not> nullish v)"
      by (cases v) simp_all
  qed
  have "usp_toString (foldl query_entry [] q) =
          joinWith ''&''
            (map (\<lambda>(k, v). form_encode k @ ''='' @ form_encode (toString v))
               (filter (\<lambda>(k, v). \<not> nullish v) q))"
    by (simp add: usp_toString_def foldl_query_entry comp_def case_prod_unfold)
  then show ?thesis
    by (simp add: buildUrl_def same)
qed

theorem buildUrl_query_witness:
  "[(''assignedTo'', Null), (''keywords'', Str ''crash on save & exit''), (''page'', Num 2)] \<noteq> []
   \<and> buildUrl \<lparr>baseUrl = ''https://zt.example.com'', account = ''alice'', password = ''pw''\<rparr> ''bugs''
        (Some [(''assignedTo'', Null), (''keywords'', Str ''crash on save & exit''), (''page'', Num 2)])
       = ''https://zt.example.com/api.php/v1/bugs?keywords=crash+on+save+%26+exit&page=2''"
  using buildUrl_query [of "\<lparr>baseUrl = ''https://zt.example.com'', account = ''alice'', password = ''pw''\<rparr>"
      "''bugs''" "[(''assignedTo'', Null), (''keywords'', Str ''crash on save & exit''), (''page'', Num 2)]"]
  by (simp add: cleaned_def startsWith_def stripLeadingSlash_def form_encode_def form_encode_char_def
      ascii_letters_def ascii_digits_def hex_digit_def number_toString_def decimal.simps digit_char_def)

subsection \<open>The fallback scan\<close>

lemma env_lines_append: "env_lines env (xs @ ys) = env_lines (env_lines env xs) ys"
  by (simp add: env_lines_def)

lemma env_lines_Cons: "env_lines env (l # ls) = env_lines (env_line env l) ls"
  by (simp add: env_lines_def)

lemma env_lines_Nil: "env_lines env [] = env"
  by (simp add: env_lines_def)

lemma snd_loadEnvFallback_files:
  "snd (loadEnvFallback_files fs env) = env_lines env (scanned_lines fs)"
  by (induction fs env rule: loadEnvFallback_files.induct)
     (simp_all add: env_lines_append env_lines_Nil)

lemma assigned_values_Cons:
  "assigned_values (l # ls) key =
     (case envRegex_exec l of
        None \<Rightarrow> assigned_values ls key
      | Some (k, v) \<Rightarrow> if k = key then trim v # assigned_values ls key else assigned_values ls key)"
  by (simp add: assigned_values_def List.map_filter_simps split: option.splits)

lemma env_lines_precedence:
  "env_lines env ls key = precedence_value env (assigned_values ls key) key"
proof (induction ls arbitrary: env)
  case Nil
  show ?case
    by (simp add: env_lines_Nil precedence_value_def assigned_values_def List.map_filter_simps
        env_falsy_def split: option.splits)
next
  case (Cons l ls)
  show ?case
  proof (cases "envRegex_exec l")
    case None
    then show ?thesis
      by (simp add: env_lines_Cons Cons.IH assigned_values_Cons env_line_def)
  next
    case (Some kv)
    obtain k v where kv: "kv = (k, v)" by (cases kv)
    show ?thesis
      using Some kv
      by (auto simp add: env_lines_Cons Cons.IH assigned_values_Cons env_line_def
          precedence_value_def env_falsy_def split: option.splits)
  qed
qed

lemma env_line_changes:
  assumes "env_line env line \<noteq> env"
  shows "\<exists>k val. envRegex_exec line = Some (k, val) \<and> env_falsy env k
           \<and> env_line env line = env(k \<mapsto> trim val)"
proof (cases "envRegex_exec line")
  case None
  with assms show ?thesis by (simp add: env_line_def)
next
  case (Some kv)
  obtain k val where kv: "kv = (k, val)" by (cases kv)
  show ?thesis
  proof (cases "env_falsy env k")
    case True
    with Some kv show ?thesis by (simp add: env_line_def)
  next
    case False
    with Some kv assms show ?thesis by (simp add: env_line_def)
  qed
qed

text \<open>
  C4, as the code has it. A line changes the environment only when it matches and its
  variable is unset or empty, and then sets that variable to the trimmed value. After the
  scan every variable holds: its value from before the scan when that was not empty;
  otherwise the first value that is not empty among the matching lines in scan order;
  otherwise the empty string when some line matched, and what it held before when none
  did. So a value that is not empty before the scan is unchanged after it.
\<close>

theorem loadEnvFallback_precedence:
  "(env_line env line \<noteq> env \<longrightarrow>
      (\<exists>k val. envRegex_exec line = Some (k, val) \<and> env_falsy env k
         \<and> env_line env line = env(k \<mapsto> trim val)))
   \<and> snd (loadEnvFallback cwdEnv homeEnv homeZshrc env) key =
       precedence_value env (assigned_values (scanned_lines [cwdEnv, homeEnv, homeZshrc]) key) key
   \<and> (env key = Some v \<and> v \<noteq> [] \<longrightarrow>
        snd (loadEnvFallback cwdEnv homeEnv homeZshrc env) key = Some v)"
proof -
  have final: "snd (loadEnvFallback cwdEnv homeEnv homeZshrc env) key =
       precedence_value env (assigned_values (scanned_lines [cwdEnv, homeEnv, homeZshrc]) key) key"
    unfolding loadEnvFallback_def snd_loadEnvFallback_files
    by (rule env_lines_precedence)
  have kept: "snd (loadEnvFallback cwdEnv homeEnv homeZshrc env) key = Some v"
    if "env key = Some v" "v \<noteq> []"
    using that unfolding final by (simp add: precedence_value_def env_falsy_def)
  from final kept env_line_changes [of env line] show ?thesis
    by blast
qed

theorem loadEnvFallback_precedence_witness:
  "env_line [''ZENTAO_ACCOUNT'' \<mapsto> ''alice''] ''ZENTAO_PASSWORD=pw'' \<noteq> [''ZENTAO_ACCOUNT'' \<mapsto> ''alice'']
   \<and> [''ZENTAO_ACCOUNT'' \<mapsto> ''alice''] ''ZENTAO_ACCOUNT'' = Some ''alice''
   \<and> ''alice'' \<noteq> []
   \<and> snd (loadEnvFallback
        (Content (''export ZENTAO_ACCOUNT=bob'' @ [CHR 0x0A] @ ''ZENTAO_PASSWORD=pw''))
        Absent
        (Content ''ZENTAO_PASSWORD=other'')
        [''ZENTAO_ACCOUNT'' \<mapsto> ''alice'']) ''ZENTAO_ACCOUNT'' = Some ''alice''"
proof -
  have changed: "env_line [''ZENTAO_ACCOUNT'' \<mapsto> ''alice''] ''ZENTAO_PASSWORD=pw''
      \<noteq> [''ZENTAO_ACCOUNT'' \<mapsto> ''alice'']"
  proof
    assume "env_line [''ZENTAO_ACCOUNT'' \<mapsto> ''alice''] ''ZENTAO_PASSWORD=pw''
      = [''ZENTAO_ACCOUNT'' \<mapsto> ''alice'']"
    then have "env_line [''ZENTAO_ACCOUNT'' \<mapsto> ''alice''] ''ZENTAO_PASSWORD=pw'' ''ZENTAO_PASSWORD''
      = [''ZENTAO_ACCOUNT'' \<mapsto> ''alice''] ''ZENTAO_PASSWORD''"
      by simp
    then show False
      by (simp add: env_line_def envRegex_exec_def match_key_value_def startsWith_def
          is_space_def is_key_start_def is_key_char_def ascii_letters_def ascii_digits_def
          is_quote_def tail_matches_def is_line_terminator_def env_falsy_def trim_def)
  qed
  have pre: "[''ZENTAO_ACCOUNT'' \<mapsto> ''alice''] ''ZENTAO_ACCOUNT'' = Some ''alice'' \<and> ''alice'' \<noteq> []"
    by simp
  from changed pre
    loadEnvFallback_precedence [of "[''ZENTAO_ACCOUNT'' \<mapsto> ''alice'']" "''ZENTAO_PASSWORD=pw''"
      "Content (''export ZENTAO_ACCOUNT=bob'' @ [CHR 0x0A] @ ''ZENTAO_PASSWORD=pw'')"
      Absent "Content ''ZENTAO_PASSWORD=other''" "''ZENTAO_ACCOUNT''" "''alice''"]
  show ?thesis by blast
qed

text \<open>
  The claim as the specification words it fails on a variable that is set to the empty
  string before the scan: the scan replaces it. And a first match with an empty value does
  not keep a later match out.
\<close>

theorem loadEnvFallback_empty_counterexample:
  "[''ZENTAO_TOKEN'' \<mapsto> []] ''ZENTAO_TOKEN'' = Some []
   \<and> snd (loadEnvFallback (Content ''ZENTAO_TOKEN=abc'') Absent Absent [''ZENTAO_TOKEN'' \<mapsto> []])
        ''ZENTAO_TOKEN'' = Some ''abc''
   \<and> snd (loadEnvFallback (Content ''ZENTAO_TOKEN='') (Content ''ZENTAO_TOKEN=abc'') Absent Map.empty)
        ''ZENTAO_TOKEN'' = Some ''abc''"
  by (simp add: loadEnvFallback_def env_lines_def env_line_def envRegex_exec_def match_key_value_def
      startsWith_def is_space_def is_key_start_def is_key_char_def ascii_letters_def ascii_digits_def
      is_quote_def tail_matches_def is_line_terminator_def env_falsy_def trim_def)

subsection \<open>Token cache and request executor\<close>

lemma fetch_sent [simp]: "sent (snd (fetch req st)) = sent st @ [req]"
  by (simp add: fetch_def split: list.splits)

lemma fetch_cachedToken [simp]: "cachedToken (snd (fetch req st)) = cachedToken st"
  by (simp add: fetch_def split: list.splits)

lemma fetch_Cons:
  "pending st = r # rs \<Longrightarrow>
   fetch req st =
     (case r of None \<Rightarrow> Inl NetworkError | Some res \<Rightarrow> Inr res,
      st\<lparr>pending := rs, sent := sent st @ [req]\<rparr>)"
  by (simp add: fetch_def)

lemma fetchToken_hit:
  "truthy (cachedToken st) \<Longrightarrow> \<not> forceRefresh \<Longrightarrow>
   fetchToken cfg forceRefresh st = (Inr (cachedToken st), st)"
  by (simp add: fetchToken_def)

lemma fetchToken_login:
  assumes "assertConfig cfg = Inr ()" "\<not> truthy (cachedToken st) \<or> forceRefresh"
    "pending st = Some res # rest" "res_ok res" "truthy (optProp (safeJson res) ''token'')"
  shows "fetchToken cfg forceRefresh st =
     (Inr (optProp (safeJson res) ''token''),
      st\<lparr>pending := rest, sent := sent st @ [tokenRequest cfg],
         cachedToken := optProp (safeJson res) ''token''\<rparr>)"
  using assms by (auto simp add: fetchToken_def fetch_Cons)

lemma callZenTao_sent:
  assumes "assertConfig cfg = Inr ()" "fetchToken cfg (d_forceTokenRefresh d) st = (Inr token, st1)"
  shows "sent (snd (callZenTao cfg d st)) = sent st1 @ [callRequest cfg d token]"
proof -
  obtain r st2 where f: "fetch (callRequest cfg d token) st1 = (r, st2)"
    by (cases "fetch (callRequest cfg d token) st1")
  then have "sent st2 = sent st1 @ [callRequest cfg d token]"
    using fetch_sent [of "callRequest cfg d token" st1] by simp
  then show ?thesis
    using assms f by (cases r) (simp_all add: callZenTao_def)
qed

lemma callZenTao_cachedToken:
  assumes "assertConfig cfg = Inr ()" "fetchToken cfg (d_forceTokenRefresh d) st = (Inr token, st1)"
  shows "cachedToken (snd (callZenTao cfg d st)) = cachedToken st1"
proof -
  obtain r st2 where f: "fetch (callRequest cfg d token) st1 = (r, st2)"
    by (cases "fetch (callRequest cfg d token) st1")
  then have "cachedToken st2 = cachedToken st1"
    using fetch_cachedToken [of "callRequest cfg d token" st1] by simp
  then show ?thesis
    using assms f by (cases r) (simp_all add: callZenTao_def)
qed

lemma length_obj_set: "length obj \<le> length (obj_set obj k v)"
  by (induction obj k v rule: obj_set.induct) simp_all

lemma length_obj_spread: "length base \<le> length (obj_spread base extra)"
  unfolding obj_spread_def
proof (induction extra arbitrary: base)
  case Nil
  show ?case by simp
next
  case (Cons kv extra)
  have "length base \<le> length (obj_set base (fst kv) (snd kv))"
    by (rule length_obj_set)
  also have "\<dots> \<le> length (foldl (\<lambda>obj kv. obj_set obj (fst kv) (snd kv)) (obj_set base (fst kv) (snd kv)) extra)"
    by (rule Cons.IH)
  finally show ?case by simp
qed

lemma callRequest_not_tokenRequest: "callRequest cfg d token \<noteq> tokenRequest cfg"
proof
  assume "callRequest cfg d token = tokenRequest cfg"
  then have "length (req_headers (callRequest cfg d token)) = length (req_headers (tokenRequest cfg))"
    by simp
  moreover have "2 \<le> length (req_headers (callRequest cfg d token))"
    using length_obj_spread [of "[(''Content-Type'', Str ''application/json''), (''Token'', token)]" "d_headers d"]
    by (simp add: callRequest_def)
  ultimately show False
    by (simp add: tokenRequest_def)
qed

lemma two_calls_one_login:
  assumes cfg: "assertConfig cfg = Inr ()"
    and cold: "\<not> truthy (cachedToken st)"
    and script: "pending st = Some res # rest"
    and ok: "res_ok res" "truthy (optProp (safeJson res) ''token'')"
    and nf: "\<not> d_forceTokenRefresh d1" "\<not> d_forceTokenRefresh d2"
  shows "sent (snd (callZenTao cfg d2 (snd (callZenTao cfg d1 st)))) =
           sent st @ [tokenRequest cfg,
                      callRequest cfg d1 (optProp (safeJson res) ''token''),
                      callRequest cfg d2 (optProp (safeJson res) ''token'')]"
proof -
  let ?tok = "optProp (safeJson res) ''token''"
  let ?st1 = "st\<lparr>pending := rest, sent := sent st @ [tokenRequest cfg], cachedToken := ?tok\<rparr>"
  let ?st2 = "snd (callZenTao cfg d1 st)"
  have t1: "fetchToken cfg (d_forceTokenRefresh d1) st = (Inr ?tok, ?st1)"
    using fetchToken_login [OF cfg _ script ok] cold by simp
  have s2: "sent ?st2 = sent st @ [tokenRequest cfg, callRequest cfg d1 ?tok]"
    using callZenTao_sent [OF cfg t1] by simp
  have c2: "cachedToken ?st2 = ?tok"
    using callZenTao_cachedToken [OF cfg t1] by simp
  have t2: "fetchToken cfg (d_forceTokenRefresh d2) ?st2 = (Inr ?tok, ?st2)"
    using fetchToken_hit [of ?st2 "d_forceTokenRefresh d2" cfg] c2 ok nf by simp
  show ?thesis
    using callZenTao_sent [OF cfg t2] s2 by simp
qed

lemma map_of_obj_set: "map_of (obj_set obj k v) = (map_of obj)(k \<mapsto> v)"
  by (induction obj k v rule: obj_set.induct) (auto simp add: fun_upd_twist)

lemma map_of_obj_spread:
  "distinct (map fst extra) \<Longrightarrow> map_of (obj_spread base extra) = map_of base ++ map_of extra"
  unfolding obj_spread_def
proof (induction extra arbitrary: base)
  case Nil
  show ?case by simp
next
  case (Cons kv extra)
  obtain k v where kv: "kv = (k, v)" by (cases kv)
  have notin: "map_of extra k = None"
    using Cons.prems kv by (simp add: map_of_eq_None_iff)
  have step: "(map_of base)(k \<mapsto> v) ++ map_of extra = map_of base ++ map_of ((k, v) # extra)"
  proof (rule ext)
    fix a
    show "((map_of base)(k \<mapsto> v) ++ map_of extra) a = (map_of base ++ map_of ((k, v) # extra)) a"
      using notin by (cases "a = k") (simp_all add: map_add_def split: option.splits)
  qed
  have e1: "foldl (\<lambda>obj kv. obj_set obj (fst kv) (snd kv)) base ((k, v) # extra)
        = foldl (\<lambda>obj kv. obj_set obj (fst kv) (snd kv)) (obj_set base k v) extra"
    by simp
  have e2: "map_of (foldl (\<lambda>obj kv. obj_set obj (fst kv) (snd kv)) (obj_set base k v) extra)
        = map_of (obj_set base k v) ++ map_of extra"
    using Cons.prems by (intro Cons.IH) simp
  show ?case
    unfolding kv by (simp only: e1 e2 map_of_obj_set step)
qed

lemma startsWith_append: "startsWith (x @ s) x"
  by (simp add: startsWith_def)

lemma str_includes_here: "str_includes (x @ s) x"
  by (cases "x @ s") (simp_all add: startsWith_def, metis append_eq_conv_conj)

lemma str_includes_append: "str_includes (p @ x @ s) x"
  by (induction p) (simp_all add: str_includes_here)


text \<open>
  C1. In every state with a cached token, \<open>fetchToken\<close> without forced refresh returns
  the cached token and leaves the whole state as it is: no request is sent and the cached
  token is not touched. Consequently, with a complete configuration, two calls of
  \<open>callZenTao\<close> in a row without forced refresh, started with an empty cache against a
  remote service that answers the login with a token, send exactly one login request, then
  the two requests under that token; started with a token in the cache they send the two
  requests and no login request.
\<close>

theorem fetchToken_cached:
  "(truthy (cachedToken st) \<and> \<not> forceRefresh \<longrightarrow>
      fetchToken cfg forceRefresh st = (Inr (cachedToken st), st))
   \<and> (assertConfig cfg = Inr () \<and> \<not> truthy (cachedToken st0)
        \<and> pending st0 = Some res # rest \<and> res_ok res \<and> truthy (optProp (safeJson res) ''token'')
        \<and> \<not> d_forceTokenRefresh d1 \<and> \<not> d_forceTokenRefresh d2 \<longrightarrow>
      sent (snd (callZenTao cfg d2 (snd (callZenTao cfg d1 st0)))) =
        sent st0 @ [tokenRequest cfg,
                    callRequest cfg d1 (optProp (safeJson res) ''token''),
                    callRequest cfg d2 (optProp (safeJson res) ''token'')]
      \<and> count_list [tokenRequest cfg,
                     callRequest cfg d1 (optProp (safeJson res) ''token''),
                     callRequest cfg d2 (optProp (safeJson res) ''token'')] (tokenRequest cfg) = 1)
   \<and> (assertConfig cfg = Inr () \<and> truthy (cachedToken st)
        \<and> \<not> d_forceTokenRefresh d1 \<and> \<not> d_forceTokenRefresh d2 \<longrightarrow>
      sent (snd (callZenTao cfg d2 (snd (callZenTao cfg d1 st)))) =
        sent st @ [callRequest cfg d1 (cachedToken st), callRequest cfg d2 (cachedToken st)]
      \<and> count_list [callRequest cfg d1 (cachedToken st), callRequest cfg d2 (cachedToken st)]
           (tokenRequest cfg) = 0)"
proof -
  have hit: "fetchToken cfg forceRefresh st = (Inr (cachedToken st), st)"
    if "truthy (cachedToken st)" "\<not> forceRefresh"
    using that by (rule fetchToken_hit)
  have cold: "sent (snd (callZenTao cfg d2 (snd (callZenTao cfg d1 st0)))) =
        sent st0 @ [tokenRequest cfg,
                    callRequest cfg d1 (optProp (safeJson res) ''token''),
                    callRequest cfg d2 (optProp (safeJson res) ''token'')]"
    if "assertConfig cfg = Inr ()" "\<not> truthy (cachedToken st0)" "pending st0 = Some res # rest"
      "res_ok res" "truthy (optProp (safeJson res) ''token'')"
      "\<not> d_forceTokenRefresh d1" "\<not> d_forceTokenRefresh d2"
    using that by (rule two_calls_one_login)
  have one: "count_list [tokenRequest cfg, callRequest cfg d1 t, callRequest cfg d2 t]
      (tokenRequest cfg) = 1" for t
    using callRequest_not_tokenRequest [of cfg d1 t] callRequest_not_tokenRequest [of cfg d2 t]
    by simp
  have none: "count_list [callRequest cfg d1 t, callRequest cfg d2 t] (tokenRequest cfg) = 0" for t
    using callRequest_not_tokenRequest [of cfg d1 t] callRequest_not_tokenRequest [of cfg d2 t]
    by simp
  have warm: "sent (snd (callZenTao cfg d2 (snd (callZenTao cfg d1 st)))) =
        sent st @ [callRequest cfg d1 (cachedToken st), callRequest cfg d2 (cachedToken st)]"
    if c: "assertConfig cfg = Inr ()" and t: "truthy (cachedToken st)"
      and nf: "\<not> d_forceTokenRefresh d1" "\<not> d_forceTokenRefresh d2"
  proof -
    let ?st2 = "snd (callZenTao cfg d1 st)"
    have t1: "fetchToken cfg (d_forceTokenRefresh d1) st = (Inr (cachedToken st), st)"
      using t nf by (simp add: fetchToken_hit)
    have s2: "sent ?st2 = sent st @ [callRequest cfg d1 (cachedToken st)]"
      using callZenTao_sent [OF c t1] .
    have c2: "cachedToken ?st2 = cachedToken st"
      using callZenTao_cachedToken [OF c t1] .
    have t2: "fetchToken cfg (d_forceTokenRefresh d2) ?st2 = (Inr (cachedToken st), ?st2)"
      using fetchToken_hit [of ?st2 "d_forceTokenRefresh d2" cfg] c2 t nf by simp
    show ?thesis
      using callZenTao_sent [OF c t2] s2 by simp
  qed
  from hit cold one none warm show ?thesis
    by blast
qed

theorem fetchToken_cached_witness:
  "truthy (cachedToken \<lparr>cachedToken = Str ''abc'', pending = [], sent = []\<rparr>)
   \<and> fetchToken demo_config False \<lparr>cachedToken = Str ''abc'', pending = [], sent = []\<rparr>
       = (Inr (Str ''abc''), \<lparr>cachedToken = Str ''abc'', pending = [], sent = []\<rparr>)
   \<and> assertConfig demo_config = Inr ()
   \<and> \<not> truthy (cachedToken \<lparr>cachedToken = Str [], pending = [Some demo_login, Some demo_boom], sent = []\<rparr>)
   \<and> res_ok demo_login
   \<and> truthy (optProp (safeJson demo_login) ''token'')
   \<and> sent (snd (callZenTao demo_config (get_request ''products'')
        (snd (callZenTao demo_config (get_request ''/projects'')
           \<lparr>cachedToken = Str [], pending = [Some demo_login, Some demo_boom], sent = []\<rparr>))))
       = [tokenRequest demo_config,
          callRequest demo_config (get_request ''/projects'') (Str ''t0k3n''),
          callRequest demo_config (get_request ''products'') (Str ''t0k3n'')]
   \<and> sent (snd (callZenTao demo_config (get_request ''products'')
        (snd (callZenTao demo_config (get_request ''/projects'')
           \<lparr>cachedToken = Str ''abc'', pending = [], sent = []\<rparr>))))
       = [callRequest demo_config (get_request ''/projects'') (Str ''abc''),
          callRequest demo_config (get_request ''products'') (Str ''abc'')]"
  using fetchToken_cached [where st = "\<lparr>cachedToken = Str ''abc'', pending = [], sent = []\<rparr>"
      and forceRefresh = False and cfg = demo_config
      and ?st0.0 = "\<lparr>cachedToken = Str [], pending = [Some demo_login, Some demo_boom], sent = []\<rparr>"
      and res = demo_login and rest = "[Some demo_boom]"
      and ?d1.0 = "get_request ''/projects''" and ?d2.0 = "get_request ''products''"]
  by (simp add: demo_config_def demo_login_def json_response_def get_request_def assertConfig_def
      res_ok_def safeJson_def)

text \<open>
  C5. The request that \<open>callZenTao\<close> sends carries the headers \<^verbatim>\<open>Content-Type\<close> and
  \<^verbatim>\<open>Token\<close> overlaid with the caller's headers: the caller's headers are assigned after
  those two, so under every name the caller supplies, the names \<^verbatim>\<open>Token\<close> and
  \<^verbatim>\<open>Content-Type\<close> among them, the header sent has the caller's value.
\<close>

theorem callZenTao_caller_headers_win:
  "(assertConfig cfg = Inr () \<and> fetchToken cfg (d_forceTokenRefresh d) st = (Inr token, st1) \<longrightarrow>
      sent (snd (callZenTao cfg d st)) = sent st1 @ [callRequest cfg d token])
   \<and> (distinct (map fst (d_headers d)) \<longrightarrow>
        map_of (req_headers (callRequest cfg d token)) =
          map_of [(''Content-Type'', Str ''application/json''), (''Token'', token)]
            ++ map_of (d_headers d))
   \<and> (distinct (map fst (d_headers d)) \<and> (name, v) \<in> set (d_headers d) \<longrightarrow>
        map_of (req_headers (callRequest cfg d token)) name = Some v)"
proof -
  have a: "sent (snd (callZenTao cfg d st)) = sent st1 @ [callRequest cfg d token]"
    if "assertConfig cfg = Inr ()" "fetchToken cfg (d_forceTokenRefresh d) st = (Inr token, st1)"
    using that by (rule callZenTao_sent)
  have b: "map_of (req_headers (callRequest cfg d token)) =
          map_of [(''Content-Type'', Str ''application/json''), (''Token'', token)]
            ++ map_of (d_headers d)"
    if "distinct (map fst (d_headers d))"
    using map_of_obj_spread [OF that] by (simp add: callRequest_def)
  have c: "map_of (req_headers (callRequest cfg d token)) name = Some v"
    if dist: "distinct (map fst (d_headers d))" and mem: "(name, v) \<in> set (d_headers d)"
  proof -
    have "map_of (d_headers d) name = Some v"
      using dist mem by simp
    then show ?thesis
      unfolding b [OF dist] by (simp add: map_add_def)
  qed
  from a b c show ?thesis
    by blast
qed

theorem callZenTao_caller_headers_win_witness:
  "assertConfig demo_config = Inr ()
   \<and> fetchToken demo_config False \<lparr>cachedToken = Str ''abc'', pending = [], sent = []\<rparr>
       = (Inr (Str ''abc''), \<lparr>cachedToken = Str ''abc'', pending = [], sent = []\<rparr>)
   \<and> distinct (map fst [(''Token'', Str ''other''), (''X-Trace'', Str ''1'')])
   \<and> (''Token'', Str ''other'') \<in> set [(''Token'', Str ''other''), (''X-Trace'', Str ''1'')]
   \<and> map_of (req_headers (last (sent (snd (callZenTao demo_config
        ((get_request ''projects'')\<lparr>d_headers := [(''Token'', Str ''other''), (''X-Trace'', Str ''1'')]\<rparr>)
        \<lparr>cachedToken = Str ''abc'', pending = [], sent = []\<rparr>))))) ''Token'' = Some (Str ''other'')"
  using callZenTao_caller_headers_win [where cfg = demo_config
      and d = "(get_request ''projects'')\<lparr>d_headers := [(''Token'', Str ''other''), (''X-Trace'', Str ''1'')]\<rparr>"
      and st = "\<lparr>cachedToken = Str ''abc'', pending = [], sent = []\<rparr>"
      and token = "Str ''abc''"
      and ?st1.0 = "\<lparr>cachedToken = Str ''abc'', pending = [], sent = []\<rparr>"
      and name = "''Token''" and v = "Str ''other''"]
  by (simp add: demo_config_def get_request_def assertConfig_def fetchToken_def)

text \<open>
  C8. Whenever the configuration is complete, a token is obtained and the response to the
  request has a status outside 200 to 299, \<open>callZenTao\<close> fails with the request error
  whose message is \<^verbatim>\<open>Request failed\<close>, the status code, a colon and the body text (the
  status text, or \<^verbatim>\<open>unknown\<close>, when the body is empty); the message contains the status
  code and the body text, and no envelope is returned. A response 500 with body
  \<^verbatim>\<open>boom\<close> gives the message \<^verbatim>\<open>Request failed 500: boom\<close>.
\<close>

theorem callZenTao_failure_status:
  "(assertConfig cfg = Inr () \<and> fetchToken cfg (d_forceTokenRefresh d) st = (Inr token, st1)
      \<and> pending st1 = Some res # rest \<and> \<not> res_ok res \<longrightarrow>
      fst (callZenTao cfg d st) =
        Inl (RequestFailed (''Request failed '' @ decimal (res_status res) @ '': '' @ failure_text res))
      \<and> str_includes (''Request failed '' @ decimal (res_status res) @ '': '' @ failure_text res)
           (decimal (res_status res))
      \<and> str_includes (''Request failed '' @ decimal (res_status res) @ '': '' @ failure_text res)
           (res_text res))
   \<and> ''Request failed '' @ decimal (res_status demo_boom) @ '': '' @ failure_text demo_boom
       = ''Request failed 500: boom''"
proof -
  let ?msg = "''Request failed '' @ decimal (res_status res) @ '': '' @ failure_text res"
  have fails: "fst (callZenTao cfg d st) = Inl (RequestFailed ?msg)"
    if "assertConfig cfg = Inr ()" "fetchToken cfg (d_forceTokenRefresh d) st = (Inr token, st1)"
      "pending st1 = Some res # rest" "\<not> res_ok res"
    using that by (simp add: callZenTao_def fetch_Cons)
  have code: "str_includes ?msg (decimal (res_status res))"
    by (rule str_includes_append)
  have body: "str_includes ?msg (res_text res)"
  proof (cases "res_text res = []")
    case True
    have "str_includes (?msg @ [] @ []) []" by (rule str_includes_append)
    with True show ?thesis by simp
  next
    case False
    have "str_includes ((''Request failed '' @ decimal (res_status res) @ '': '') @ res_text res @ [])
        (res_text res)"
      by (rule str_includes_append)
    with False show ?thesis by (simp add: failure_text_def)
  qed
  have boom: "''Request failed '' @ decimal (res_status demo_boom) @ '': '' @ failure_text demo_boom
       = ''Request failed 500: boom''"
    by (simp add: demo_boom_def failure_text_def decimal.simps digit_char_def)
  from fails code body boom show ?thesis
    by blast
qed

theorem callZenTao_failure_status_witness:
  "assertConfig demo_config = Inr ()
   \<and> fetchToken demo_config False \<lparr>cachedToken = Str ''abc'', pending = [Some demo_boom], sent = []\<rparr>
       = (Inr (Str ''abc''), \<lparr>cachedToken = Str ''abc'', pending = [Some demo_boom], sent = []\<rparr>)
   \<and> \<not> res_ok demo_boom
   \<and> fst (callZenTao demo_config (get_request ''/departments'')
        \<lparr>cachedToken = Str ''abc'', pending = [Some demo_boom], sent = []\<rparr>)
       = Inl (RequestFailed ''Request failed 500: boom'')"
  using callZenTao_failure_status [where cfg = demo_config and d = "get_request ''/departments''"
      and st = "\<lparr>cachedToken = Str ''abc'', pending = [Some demo_boom], sent = []\<rparr>"
      and token = "Str ''abc''"
      and ?st1.0 = "\<lparr>cachedToken = Str ''abc'', pending = [Some demo_boom], sent = []\<rparr>"
      and res = demo_boom and rest = "[]"]
  by (simp add: demo_config_def get_request_def assertConfig_def fetchToken_def res_ok_def
      demo_boom_def)

subsection \<open>Products and bugs\<close>

lemma filterE_Inr:
  "filterE f xs = Inr ys \<Longrightarrow> ys = filter (\<lambda>x. f x = Inr True) xs"
proof (induction xs arbitrary: ys)
  case Nil
  then show ?case by simp
next
  case (Cons x xs)
  then show ?case
    by (auto split: sum.splits if_splits)
qed

lemma filter_Cons_find: "filter P xs = b # bs \<Longrightarrow> find P xs = Some b"
  by (induction xs) (auto split: if_splits)

lemmas eval_simps =
  demo_config_def json_response_def warm_def get_request_def get_query_def
  assertConfig_def fetchToken_def fetch_def callZenTao_def callRequest_def obj_spread_def
  res_ok_def safeJson_def response_data_def buildUrl_def cleaned_def startsWith_def
  stripLeadingSlash_def query_entry_def usp_append_def usp_toString_def form_encode_def form_encode_char_def
  ascii_letters_def ascii_digits_def hex_digit_def number_toString_def decimal.simps digit_char_def
  extractArray_def toLowerCase_def toLowerChar_def trim_def is_space_def js_or_def

lemma bugMatches_no_status:
  "bugMatches cfg keyword a Undefined bug = bugMatches cfg keyword b Undefined bug"
  by (cases "getProp bug ''assignedTo''") (simp_all add: bugMatches_def Let_def)

lemma fetchBugsByProduct_no_status:
  "fetchBugsByProduct cfg productId keyword a Undefined limit page st =
   fetchBugsByProduct cfg productId keyword b Undefined limit page st"
proof -
  have "bugMatches cfg keyword a Undefined = bugMatches cfg keyword b Undefined"
    by (rule ext) (rule bugMatches_no_status)
  then show ?thesis
    by (simp only: fetchBugsByProduct_def)
qed

text \<open>
  C10. \<open>getBugStats\<close> gives the same result, counts and state, for both values of its
  flag \<^verbatim>\<open>activeOnly\<close>: the flag only sets \<^verbatim>\<open>allStatuses\<close> of the bug filter, and
  without a status that filter does not depend on \<^verbatim>\<open>allStatuses\<close>. On a payload with
  an active and a resolved bug of the account and an active bug of another account, both
  flags count two bugs, one of them active.
\<close>

theorem getBugStats_flag_irrelevant:
  "getBugStats cfg productId True st = getBugStats cfg productId False st
   \<and> fetchBugsByProduct cfg productId keyword True Undefined limit page st =
       fetchBugsByProduct cfg productId keyword False Undefined limit page st
   \<and> fst (getBugStats demo_config (Num 5) True
        (warm [Some (json_response (Obj [(''bugs'', Arr [demo_bug_active, demo_bug_other, demo_bug_resolved])]))]))
       = Inr (BugStats (Num 5) 2 1)
   \<and> fst (getBugStats demo_config (Num 5) False
        (warm [Some (json_response (Obj [(''bugs'', Arr [demo_bug_active, demo_bug_other, demo_bug_resolved])]))]))
       = Inr (BugStats (Num 5) 2 1)"
proof -
  have a: "getBugStats c p True s = getBugStats c p False s" for c p s
    unfolding getBugStats_def
    by (simp only: fetchBugsByProduct_no_status [of c p Undefined "\<not> True" _ _ s "\<not> False"])
  have b: "fetchBugsByProduct cfg productId keyword True Undefined limit page st =
       fetchBugsByProduct cfg productId keyword False Undefined limit page st"
    by (rule fetchBugsByProduct_no_status)
  have c: "fst (getBugStats demo_config (Num 5) False
        (warm [Some (json_response (Obj [(''bugs'', Arr [demo_bug_active, demo_bug_other, demo_bug_resolved])]))]))
       = Inr (BugStats (Num 5) 2 1)"
    by (simp add: getBugStats_def fetchBugsByProduct_def bugMatches_def isActive_def
        normalizeAccount_def identity_fields_def demo_bug_active_def demo_bug_other_def
        demo_bug_resolved_def eval_simps)
  have d: "fst (getBugStats demo_config (Num 5) True
        (warm [Some (json_response (Obj [(''bugs'', Arr [demo_bug_active, demo_bug_other, demo_bug_resolved])]))]))
       = Inr (BugStats (Num 5) 2 1)"
    unfolding a by (rule c)
  from a [of cfg productId st] b c d show ?thesis by blast
qed


lemma str_includes_nonempty: "str_includes s k \<Longrightarrow> k \<noteq> [] \<Longrightarrow> s \<noteq> []"
  by (cases s) simp_all

lemma toLowerCase_Nil_iff: "toLowerCase s = [] \<longleftrightarrow> s = []"
  by (simp add: toLowerCase_def)

lemma optProp_truthy_Obj: "truthy (optProp p k) \<Longrightarrow> \<exists>kvs. p = Obj kvs"
  by (cases p) simp_all

lemma keyword_filtered_Obj:
  assumes "nameIncludes (Str n) p = Inr True" "n \<noteq> []"
  shows "\<exists>kvs. p = Obj kvs"
proof -
  from assms(1) obtain nm where nm: "nameLower p = Inr nm" and inc: "str_includes nm (toLowerCase n)"
    by (auto simp add: nameIncludes_def split: sum.splits)
  from inc assms(2) have "nm \<noteq> []"
    using str_includes_nonempty toLowerCase_Nil_iff by blast
  with nm have "truthy (optProp p ''name'')"
    by (cases p) (auto simp add: nameLower_def js_or_def toLowerCase_Nil_iff split: if_splits)
  then show ?thesis by (rule optProp_truthy_Obj)
qed

lemma nameLower_Obj: "nameLower (Obj kvs) = Inr (toLowerCase (toString (js_or (optProp (Obj kvs) ''name'') (Str []))))"
  by (simp add: nameLower_def)

lemma idName_Obj:
  "idName (Obj kvs) =
     Inr (toString (optProp (Obj kvs) ''id'') @ '':'' @ toString (optProp (Obj kvs) ''name''))"
  by (simp add: idName_def)

lemma exactName_Obj:
  "exactName (Str n) (Obj kvs) = Inr (nameLower (Obj kvs) = Inr (toLowerCase n))"
  by (simp add: exactName_def nameLower_def)

lemma findE_exactName:
  assumes "list_all (\<lambda>p. \<exists>kvs. p = Obj kvs) candidates"
  shows "findE (exactName (Str n)) candidates =
           Inr (find (\<lambda>p. nameLower p = Inr (toLowerCase n)) candidates)"
  using assms
proof (induction candidates)
  case Nil
  show ?case by simp
next
  case (Cons p ps)
  then obtain kvs where p: "p = Obj kvs" by auto
  from Cons have IH: "findE (exactName (Str n)) ps = Inr (find (\<lambda>p. nameLower p = Inr (toLowerCase n)) ps)"
    by simp
  show ?case
    by (simp add: IH p exactName_Obj)
qed

lemma mapE_idName:
  assumes "list_all (\<lambda>p. \<exists>kvs. p = Obj kvs) candidates"
  shows "mapE idName candidates =
           Inr (map (\<lambda>p. toString (optProp p ''id'') @ '':'' @ toString (optProp p ''name'')) candidates)"
  using assms
proof (induction candidates)
  case Nil
  show ?case by simp
next
  case (Cons p ps)
  then obtain kvs where p: "p = Obj kvs" by auto
  from Cons have IH: "mapE idName ps =
      Inr (map (\<lambda>p. toString (optProp p ''id'') @ '':'' @ toString (optProp p ''name'')) ps)"
    by simp
  show ?case
    unfolding p mapE.simps idName_Obj IH [unfolded p] by (simp add: p)
qed

lemma joinWith_member: "x \<in> set xs \<Longrightarrow> \<exists>a b. joinWith sep xs = a @ x @ b"
proof (induction sep xs rule: joinWith.induct)
  case (1 sep)
  then show ?case by simp
next
  case (2 sep y)
  then have "joinWith sep [y] = [] @ x @ []" by simp
  then show ?case by blast
next
  case (3 sep y z zs)
  show ?case
  proof (cases "x = y")
    case True
    then have "joinWith sep (y # z # zs) = [] @ x @ (sep @ joinWith sep (z # zs))" by simp
    then show ?thesis by blast
  next
    case False
    with 3 obtain a b where "joinWith sep (z # zs) = a @ x @ b" by auto
    then have "joinWith sep (y # z # zs) = (y @ sep @ a) @ x @ b" by simp
    then show ?thesis by blast
  qed
qed

lemma str_includes_joined:
  assumes "x \<in> set xs"
  shows "str_includes (pre @ joinWith sep xs) x"
proof -
  from joinWith_member [OF assms] obtain a b where "joinWith sep xs = a @ x @ b" by blast
  then have "pre @ joinWith sep xs = (pre @ a) @ x @ b" by simp
  then show ?thesis using str_includes_append [of "pre @ a" x b] by simp
qed


lemma keyword_filtered_all_Obj:
  assumes "n \<noteq> []" "list_all (\<lambda>p. nameIncludes (Str n) p = Inr True) candidates"
  shows "list_all (\<lambda>p. \<exists>kvs. p = Obj kvs) candidates"
  using assms keyword_filtered_Obj by (auto simp add: list_all_iff)

lemma pickProduct_cases:
  "n \<noteq> [] \<and> list_all (\<lambda>p. nameIncludes (Str n) p = Inr True) candidates \<longrightarrow>
     pickProduct (Str n) candidates =
       Inr (case find (\<lambda>p. nameLower p = Inr (toLowerCase n)) candidates of
              Some p \<Rightarrow> p
            | None \<Rightarrow> if length candidates = 1 then index0 candidates else Undefined,
            candidates)
     \<and> (find (\<lambda>p. nameLower p = Inr (toLowerCase n)) candidates \<noteq> None \<or> length candidates = 1 \<longrightarrow>
          truthy (fst (projr (pickProduct (Str n) candidates)))
          \<and> fst (projr (pickProduct (Str n) candidates)) \<in> set candidates)
     \<and> (find (\<lambda>p. nameLower p = Inr (toLowerCase n)) candidates = None \<and> length candidates \<noteq> 1 \<longrightarrow>
          pickProduct (Str n) candidates = Inr (Undefined, candidates)
          \<and> resolutionError (Str n) candidates =
              (if candidates = [] then
                 NoProductMatched (''No product matched '' @ [CHR 0x22] @ n @ [CHR 0x22])
               else
                 MultipleProductsMatched
                   (''Multiple products matched '' @ [CHR 0x22] @ n @ [CHR 0x22]
                    @ '', please specify one of: ''
                    @ joinWith '', ''
                        (map (\<lambda>p. toString (optProp p ''id'') @ '':'' @ toString (optProp p ''name''))
                           candidates)))
          \<and> (\<forall>p \<in> set candidates.
                str_includes
                  (''Multiple products matched '' @ [CHR 0x22] @ n @ [CHR 0x22]
                   @ '', please specify one of: ''
                   @ joinWith '', ''
                       (map (\<lambda>p. toString (optProp p ''id'') @ '':'' @ toString (optProp p ''name''))
                          candidates))
                  (toString (optProp p ''id'') @ '':'' @ toString (optProp p ''name''))))"
proof (intro impI, elim conjE)
  assume n: "n \<noteq> []" and kf: "list_all (\<lambda>p. nameIncludes (Str n) p = Inr True) candidates"
  let ?exact = "find (\<lambda>p. nameLower p = Inr (toLowerCase n)) candidates"
  let ?idn = "\<lambda>p. toString (optProp p ''id'') @ '':'' @ toString (optProp p ''name'')"
  have objs: "list_all (\<lambda>p. \<exists>kvs. p = Obj kvs) candidates"
    using n kf by (rule keyword_filtered_all_Obj)
  have found: "findE (exactName (Str n)) candidates = Inr ?exact"
    using objs by (rule findE_exactName)
  have exact_truthy: "truthy p \<and> p \<in> set candidates" if "?exact = Some p" for p
  proof -
    from that have "p \<in> set candidates"
      by (auto simp add: find_Some_iff)
    with objs show ?thesis
      by (auto simp add: list_all_iff)
  qed
  have single: "truthy (index0 candidates) \<and> index0 candidates \<in> set candidates"
    if "length candidates = 1"
  proof -
    from that obtain c where c: "candidates = [c]"
      by (cases candidates) simp_all
    with objs show ?thesis
      by (auto simp add: index0_def)
  qed
  have pick: "pickProduct (Str n) candidates =
       Inr (case ?exact of
              Some p \<Rightarrow> p
            | None \<Rightarrow> if length candidates = 1 then index0 candidates else Undefined,
            candidates)"
  proof (cases ?exact)
    case None
    then show ?thesis
      using single by (simp add: pickProduct_def found)
  next
    case (Some p)
    then show ?thesis
      using exact_truthy [OF Some] by (simp add: pickProduct_def found)
  qed
  have resolved: "truthy (fst (projr (pickProduct (Str n) candidates)))
          \<and> fst (projr (pickProduct (Str n) candidates)) \<in> set candidates"
    if "?exact \<noteq> None \<or> length candidates = 1"
  proof (cases ?exact)
    case None
    with that have "length candidates = 1" by simp
    with None single show ?thesis by (simp add: pick)
  next
    case (Some p)
    with exact_truthy [OF Some] show ?thesis by (simp add: pick)
  qed
  have names: "mapE idName candidates = Inr (map ?idn candidates)"
    using objs by (rule mapE_idName)
  have failed: "pickProduct (Str n) candidates = Inr (Undefined, candidates)"
    if "?exact = None" "length candidates \<noteq> 1"
    using that by (simp add: pick)
  have err: "resolutionError (Str n) candidates =
              (if candidates = [] then
                 NoProductMatched (''No product matched '' @ [CHR 0x22] @ n @ [CHR 0x22])
               else
                 MultipleProductsMatched
                   (''Multiple products matched '' @ [CHR 0x22] @ n @ [CHR 0x22]
                    @ '', please specify one of: '' @ joinWith '', '' (map ?idn candidates)))"
    by (simp add: resolutionError_def names)
  have listed: "str_includes
                  (''Multiple products matched '' @ [CHR 0x22] @ n @ [CHR 0x22]
                   @ '', please specify one of: '' @ joinWith '', '' (map ?idn candidates))
                  (?idn p)"
    if "p \<in> set candidates" for p
  proof -
    from that have "?idn p \<in> set (map ?idn candidates)" by simp
    from str_includes_joined [OF this, of "''Multiple products matched '' @ [CHR 0x22] @ n @ [CHR 0x22]
                   @ '', please specify one of: ''" "'', ''"]
    show ?thesis by simp
  qed
  from pick resolved failed err listed
  show "pickProduct (Str n) candidates =
       Inr (case ?exact of
              Some p \<Rightarrow> p
            | None \<Rightarrow> if length candidates = 1 then index0 candidates else Undefined,
            candidates)
     \<and> (?exact \<noteq> None \<or> length candidates = 1 \<longrightarrow>
          truthy (fst (projr (pickProduct (Str n) candidates)))
          \<and> fst (projr (pickProduct (Str n) candidates)) \<in> set candidates)
     \<and> (?exact = None \<and> length candidates \<noteq> 1 \<longrightarrow>
          pickProduct (Str n) candidates = Inr (Undefined, candidates)
          \<and> resolutionError (Str n) candidates =
              (if candidates = [] then
                 NoProductMatched (''No product matched '' @ [CHR 0x22] @ n @ [CHR 0x22])
               else
                 MultipleProductsMatched
                   (''Multiple products matched '' @ [CHR 0x22] @ n @ [CHR 0x22]
                    @ '', please specify one of: '' @ joinWith '', '' (map ?idn candidates)))
          \<and> (\<forall>p \<in> set candidates.
                str_includes
                  (''Multiple products matched '' @ [CHR 0x22] @ n @ [CHR 0x22]
                   @ '', please specify one of: '' @ joinWith '', '' (map ?idn candidates))
                  (?idn p)))"
    by blast
qed

lemma listProducts_keyword_filtered:
  assumes "listProducts cfg (Str n) limit st = (Inr candidates, st1)" "n \<noteq> []"
  shows "list_all (\<lambda>p. nameIncludes (Str n) p = Inr True) candidates"
proof -
  obtain r st' where call: "callZenTao cfg
      (get_query ''products'' [(''page'', Num 1), (''limit'', Num (int limit)), (''keywords'', Str n)]) st
      = (r, st')"
    by (cases "callZenTao cfg
      (get_query ''products'' [(''page'', Num 1), (''limit'', Num (int limit)), (''keywords'', Str n)]) st")
  from assms call obtain res where r: "r = Inr res"
    by (cases r) (auto simp add: listProducts_def)
  from assms call r obtain filtered where
    f: "filterE (nameIncludes (Str n)) (extractArray (e_data res) [''products'']) = Inr filtered"
    and c: "candidates = take limit filtered"
    by (cases "filterE (nameIncludes (Str n)) (extractArray (e_data res) [''products''])")
       (auto simp add: listProducts_def)
  from f have "filtered = filter (\<lambda>p. nameIncludes (Str n) p = Inr True)
      (extractArray (e_data res) [''products''])"
    by (rule filterE_Inr)
  then have "list_all (\<lambda>p. nameIncludes (Str n) p = Inr True) filtered"
    by (simp add: list_all_iff)
  then show ?thesis
    unfolding c by (auto simp add: list_all_iff dest: in_set_takeD)
qed

lemma findProductByName_pick:
  assumes "listProducts cfg (Str n) 50 st = (Inr candidates, st1)" "n \<noteq> []"
  shows "findProductByName cfg (Str n) st = (pickProduct (Str n) candidates, st1)"
  using assms by (simp add: findProductByName_def)

lemma getMyBug_unresolved:
  assumes "findProductByName cfg productName st = (Inr (product, matches), st1)" "\<not> truthy product"
  shows "getMyBug cfg productName keyword status allStatuses st =
           (Inl (resolutionError productName matches), st1)"
  using assms by (simp add: getMyBug_def)

text \<open>
  C2, as the code has it. For every query name that is a non-empty string and every list of
  candidates that passed the keyword filter for it: the resolved product is the first
  candidate whose name equals the query without regard to case, when there is one (however
  many there are); otherwise the only candidate, when there is exactly one; so resolution
  succeeds when some candidate matches exactly or there is one candidate. In every other
  case no product is resolved, and the error is \<^verbatim>\<open>No product matched\<close> for no
  candidates, and otherwise \<^verbatim>\<open>Multiple products matched\<close> with every candidate's
  \<^verbatim>\<open>id:name\<close> in its message. The candidates that \<open>listProducts\<close> returns for
  such a name have all passed the keyword filter, \<open>findProductByName\<close> resolves among
  them, and \<open>getMyBug\<close> fails with that error when no product is resolved.
\<close>

theorem pickProduct_resolution:
  "(n \<noteq> [] \<and> listProducts cfg (Str n) 50 st = (Inr candidates, st1) \<longrightarrow>
      list_all (\<lambda>p. nameIncludes (Str n) p = Inr True) candidates
      \<and> findProductByName cfg (Str n) st = (pickProduct (Str n) candidates, st1))
   \<and> (findProductByName cfg (Str n) st = (Inr (product, candidates), st1) \<and> \<not> truthy product \<longrightarrow>
        getMyBug cfg (Str n) keyword status allStatuses st =
          (Inl (resolutionError (Str n) candidates), st1))
   \<and> (n \<noteq> [] \<and> list_all (\<lambda>p. nameIncludes (Str n) p = Inr True) candidates \<longrightarrow>
     pickProduct (Str n) candidates =
       Inr (case find (\<lambda>p. nameLower p = Inr (toLowerCase n)) candidates of
              Some p \<Rightarrow> p
            | None \<Rightarrow> if length candidates = 1 then index0 candidates else Undefined,
            candidates)
     \<and> (find (\<lambda>p. nameLower p = Inr (toLowerCase n)) candidates \<noteq> None \<or> length candidates = 1 \<longrightarrow>
          truthy (fst (projr (pickProduct (Str n) candidates)))
          \<and> fst (projr (pickProduct (Str n) candidates)) \<in> set candidates)
     \<and> (find (\<lambda>p. nameLower p = Inr (toLowerCase n)) candidates = None \<and> length candidates \<noteq> 1 \<longrightarrow>
          pickProduct (Str n) candidates = Inr (Undefined, candidates)
          \<and> resolutionError (Str n) candidates =
              (if candidates = [] then
                 NoProductMatched (''No product matched '' @ [CHR 0x22] @ n @ [CHR 0x22])
               else
                 MultipleProductsMatched
                   (''Multiple products matched '' @ [CHR 0x22] @ n @ [CHR 0x22]
                    @ '', please specify one of: ''
                    @ joinWith '', ''
                        (map (\<lambda>p. toString (optProp p ''id'') @ '':'' @ toString (optProp p ''name''))
                           candidates)))
          \<and> (\<forall>p \<in> set candidates.
                str_includes
                  (''Multiple products matched '' @ [CHR 0x22] @ n @ [CHR 0x22]
                   @ '', please specify one of: ''
                   @ joinWith '', ''
                       (map (\<lambda>p. toString (optProp p ''id'') @ '':'' @ toString (optProp p ''name''))
                          candidates))
                  (toString (optProp p ''id'') @ '':'' @ toString (optProp p ''name'')))))"
  using listProducts_keyword_filtered [of cfg n 50 st candidates st1]
    findProductByName_pick [of cfg n st candidates st1]
    getMyBug_unresolved [of cfg "Str n" st product candidates st1 keyword status allStatuses]
    pickProduct_cases [of n candidates]
  by blast

lemmas product_simps =
  pickProduct_def exactName_def nameLower_def nameIncludes_def resolutionError_def idName_def Let_def
  index0_def demo_foo_def demo_foobar_def demo_foobaz_def startsWith_def
  toLowerCase_def toLowerChar_def js_or_def number_toString_def decimal.simps digit_char_def

theorem pickProduct_resolution_witness:
  "''Foo'' \<noteq> []
   \<and> listProducts demo_config (Str ''Foo'') 50 (warm [Some demo_products_page])
       = (Inr [demo_foobar, demo_foobaz],
          \<lparr>cachedToken = Str ''abc'', pending = [], sent = [demo_products_request]\<rparr>)
   \<and> list_all (\<lambda>p. nameIncludes (Str ''Foo'') p = Inr True) [demo_foobar, demo_foobaz]
   \<and> find (\<lambda>p. nameLower p = Inr (toLowerCase ''Foo'')) [demo_foobar, demo_foobaz] = None
   \<and> length [demo_foobar, demo_foobaz] \<noteq> 1
   \<and> findProductByName demo_config (Str ''Foo'') (warm [Some demo_products_page])
       = (Inr (Undefined, [demo_foobar, demo_foobaz]),
          \<lparr>cachedToken = Str ''abc'', pending = [], sent = [demo_products_request]\<rparr>)
   \<and> \<not> truthy Undefined
   \<and> getMyBug demo_config (Str ''Foo'') Undefined Undefined False (warm [Some demo_products_page])
       = (Inl (MultipleProductsMatched
                 (''Multiple products matched '' @ [CHR 0x22] @ ''Foo'' @ [CHR 0x22]
                  @ '', please specify one of: 2:Foobar, 3:Foobaz'')),
          \<lparr>cachedToken = Str ''abc'', pending = [], sent = [demo_products_request]\<rparr>)
   \<and> list_all (\<lambda>p. nameIncludes (Str ''Foo'') p = Inr True) [demo_foo]
   \<and> length [demo_foo] = 1
   \<and> pickProduct (Str ''Foo'') [demo_foo] = Inr (demo_foo, [demo_foo])"
proof -
  let ?st = "warm [Some demo_products_page]"
  let ?st1 = "\<lparr>cachedToken = Str ''abc'', pending = [], sent = [demo_products_request]\<rparr>"
  have lp: "listProducts demo_config (Str ''Foo'') 50 ?st = (Inr [demo_foobar, demo_foobaz], ?st1)"
    by (simp add: listProducts_def demo_products_page_def demo_products_request_def
        product_simps eval_simps)
  have two: "find (\<lambda>p. nameLower p = Inr (toLowerCase ''Foo'')) [demo_foobar, demo_foobaz] = None
      \<and> length [demo_foobar, demo_foobaz] \<noteq> 1"
    by (simp add: product_simps)
  have one: "list_all (\<lambda>p. nameIncludes (Str ''Foo'') p = Inr True) [demo_foo] \<and> length [demo_foo] = 1"
    by (simp add: product_simps)
  note t2 = pickProduct_resolution [where n = "''Foo''" and cfg = demo_config and st = ?st
      and candidates = "[demo_foobar, demo_foobaz]" and ?st1.0 = ?st1 and product = Undefined
      and keyword = Undefined and status = Undefined and allStatuses = False]
  note t1 = pickProduct_resolution [where n = "''Foo''" and candidates = "[demo_foo]"]
  have kf: "list_all (\<lambda>p. nameIncludes (Str ''Foo'') p = Inr True) [demo_foobar, demo_foobaz]"
    using t2 lp by simp
  have fp: "findProductByName demo_config (Str ''Foo'') ?st = (Inr (Undefined, [demo_foobar, demo_foobaz]), ?st1)"
    using t2 lp kf two by simp
  have err: "resolutionError (Str ''Foo'') [demo_foobar, demo_foobaz] =
      MultipleProductsMatched
        (''Multiple products matched '' @ [CHR 0x22] @ ''Foo'' @ [CHR 0x22]
         @ '', please specify one of: 2:Foobar, 3:Foobaz'')"
    by (simp add: product_simps)
  have gm: "getMyBug demo_config (Str ''Foo'') Undefined Undefined False ?st =
      (Inl (resolutionError (Str ''Foo'') [demo_foobar, demo_foobaz]), ?st1)"
    using t2 fp by simp
  have p1: "pickProduct (Str ''Foo'') [demo_foo] = Inr (demo_foo, [demo_foo])"
    using t1 one by (simp add: product_simps)
  show ?thesis
    using lp kf two fp gm [unfolded err] one p1 by simp
qed

text \<open>
  The claim as the specification words it fails on its own example: with the candidates
  \<^verbatim>\<open>Foo\<close> and \<^verbatim>\<open>Foobar\<close> and the query \<^verbatim>\<open>Foo\<close>, the candidate \<^verbatim>\<open>Foo\<close> is an
  exact match and is the resolved product.
\<close>

theorem pickProduct_exact_counterexample:
  "list_all (\<lambda>p. nameIncludes (Str ''Foo'') p = Inr True) [demo_foo, demo_foobar]
   \<and> pickProduct (Str ''Foo'') [demo_foo, demo_foobar] = Inr (demo_foo, [demo_foo, demo_foobar])
   \<and> truthy demo_foo
   \<and> fst (findProductByName demo_config (Str ''Foo'')
        (warm [Some (json_response (Obj [(''products'', Arr [demo_foo, demo_foobar])]))]))
       = Inr (demo_foo, [demo_foo, demo_foobar])"
  by (simp add: findProductByName_def listProducts_def product_simps eval_simps)


subsection \<open>The next-bug loop\<close>

lemma callZenTao_warm:
  assumes "assertConfig cfg = Inr ()" "truthy (cachedToken st)" "\<not> d_forceTokenRefresh d"
    "pending st = Some res # rest"
  shows "callZenTao cfg d st =
     (if res_ok res then
        Inr \<lparr>e_status = res_status res, e_headers = res_headers res, e_data = response_data res\<rparr>
      else
        Inl (RequestFailed (''Request failed '' @ decimal (res_status res) @ '': '' @ failure_text res)),
      st\<lparr>pending := rest, sent := sent st @ [callRequest cfg d (cachedToken st)]\<rparr>)"
  using assms by (simp add: callZenTao_def fetchToken_hit fetch_Cons)

lemma get_query_no_refresh [simp]: "\<not> d_forceTokenRefresh (get_query p q)"
  by (simp add: get_query_def get_request_def)

lemma get_request_no_refresh [simp]: "\<not> d_forceTokenRefresh (get_request p)"
  by (simp add: get_request_def)

lemma fetchBugs_page:
  assumes "assertConfig cfg = Inr ()" "truthy (cachedToken st)"
    "pending st = Some res # rest" "res_ok res"
  shows "fetchBugsByProduct cfg productId keyword False status (Num 20) (Num (int page)) st =
     (case page_bugs cfg keyword status res of
        Inl e \<Rightarrow> Inl e
      | Inr bugs \<Rightarrow> Inr (bugs, response_data res),
      st\<lparr>pending := rest,
         sent := sent st @ [pageRequest cfg (cachedToken st) productId keyword page]\<rparr>)"
  using assms
  by (simp add: fetchBugsByProduct_def callZenTao_warm page_bugs_def pageRequest_def
      split: sum.splits)

lemma getNextBug_pages_past_bound:
  "10 < page \<Longrightarrow>
   getNextBug_pages cfg productId keyword status page st =
     (Inr (Message (noBugsText cfg @ '' found under product '' @ toString productId)), st)"
  by (simp add: getNextBug_pages.simps)

lemma getNextBug_pages_empty_page:
  assumes "assertConfig cfg = Inr ()" "truthy (cachedToken st)"
    "pending st = Some res # rest" "res_ok res" "page_bugs cfg keyword status res = Inr []"
    "page \<le> 10"
  shows "getNextBug_pages cfg productId keyword status page st =
     getNextBug_pages cfg productId keyword status (page + 1)
       (st\<lparr>pending := rest,
           sent := sent st @ [pageRequest cfg (cachedToken st) productId keyword page]\<rparr>)"
  using assms
  by (subst getNextBug_pages.simps) (simp add: fetchBugs_page)

lemma getNextBug_pages_not_found:
  assumes cfg: "assertConfig cfg = Inr ()"
    and tok: "truthy (cachedToken st)"
    and script: "pending st = map Some rs @ rest"
    and len: "page + length rs = 11"
    and empties: "\<forall>r \<in> set rs. res_ok r \<and> page_bugs cfg keyword status r = Inr []"
  shows "getNextBug_pages cfg productId keyword status page st =
     (Inr (Message (noBugsText cfg @ '' found under product '' @ toString productId)),
      st\<lparr>pending := rest,
         sent := sent st @ map (pageRequest cfg (cachedToken st) productId keyword) [page..<11]\<rparr>)"
  using tok script len empties
proof (induction rs arbitrary: page st)
  case Nil
  then have "page = 11" by simp
  with Nil show ?case
    by (simp add: getNextBug_pages_past_bound)
next
  case (Cons r rs)
  let ?st1 = "st\<lparr>pending := map Some rs @ rest,
      sent := sent st @ [pageRequest cfg (cachedToken st) productId keyword page]\<rparr>"
  from Cons.prems have page: "page \<le> 10" by simp
  have step: "getNextBug_pages cfg productId keyword status page st =
      getNextBug_pages cfg productId keyword status (page + 1) ?st1"
    using Cons.prems page by (intro getNextBug_pages_empty_page [OF cfg]) auto
  have rest: "getNextBug_pages cfg productId keyword status (page + 1) ?st1 =
     (Inr (Message (noBugsText cfg @ '' found under product '' @ toString productId)),
      ?st1\<lparr>pending := rest,
         sent := sent ?st1 @ map (pageRequest cfg (cachedToken ?st1) productId keyword) [page + 1..<11]\<rparr>)"
    using Cons.prems by (intro Cons.IH) auto
  have upt: "[page..<11] = page # [page + 1..<11]"
    using page by (simp add: upt_conv_Cons)
  show ?case
    unfolding step rest upt by simp
qed

lemma bugMatches_getProp:
  "bugMatches cfg keyword a status bug = Inr b \<Longrightarrow> getProp bug k = Inr (optProp bug k)"
  by (cases bug) (simp_all add: bugMatches_def)

lemma page_bugs_first:
  assumes "page_bugs cfg keyword status res = Inr (b # bs)"
  shows "find (\<lambda>x. bugMatches cfg keyword False status x = Inr True)
           (extractArray (response_data res) [''bugs'']) = Some b
         \<and> firstBugId (b # bs) = Inr (js_or (optProp b ''id'') (optProp b ''bugId''))"
proof -
  let ?m = "\<lambda>x. bugMatches cfg keyword False status x = Inr True"
  from assms have eq: "b # bs = filter ?m (extractArray (response_data res) [''bugs''])"
    unfolding page_bugs_def by (rule filterE_Inr)
  then have first: "find ?m (extractArray (response_data res) [''bugs'']) = Some b"
    using filter_Cons_find [of ?m "extractArray (response_data res) [''bugs'']" b bs] by simp
  have "b \<in> set (filter ?m (extractArray (response_data res) [''bugs'']))"
    using eq by (metis list.set_intros(1))
  then have "?m b" by simp
  then have "getProp b k = Inr (optProp b k)" for k
    by (rule bugMatches_getProp)
  then have "firstBugId (b # bs) = Inr (js_or (optProp b ''id'') (optProp b ''bugId''))"
    by (simp add: firstBugId_def index0_def js_or_def)
  with first show ?thesis by simp
qed


lemma getBugWithImages_warm:
  assumes "assertConfig cfg = Inr ()" "truthy (cachedToken st)"
    "pending st = Some res # rest" "res_ok res"
  shows "getBugWithImages cfg bugId st =
     (Inr (detailOf (response_data res)),
      st\<lparr>pending := rest,
         sent := sent st @ [callRequest cfg (get_request (''bugs/'' @ toString bugId)) (cachedToken st)]\<rparr>)"
  using assms by (simp add: getBugWithImages_def callZenTao_warm)

lemma getNextBug_pages_hit_page:
  assumes "assertConfig cfg = Inr ()" "truthy (cachedToken st)"
    "pending st = Some res # rest" "res_ok res" "page_bugs cfg keyword status res = Inr (b # bs)"
    "page \<le> 10"
  shows "getNextBug_pages cfg productId keyword status page st =
     (case getBugWithImages cfg (js_or (optProp b ''id'') (optProp b ''bugId''))
             (st\<lparr>pending := rest,
                 sent := sent st @ [pageRequest cfg (cachedToken st) productId keyword page]\<rparr>) of
        (Inl e, s) \<Rightarrow> (Inl e, s)
      | (Inr detail, s) \<Rightarrow> (Inr (NextBug detail), s))"
  using assms page_bugs_first [OF assms(5)]
  by (subst getNextBug_pages.simps) (simp add: fetchBugs_page)

lemma getNextBug_pages_found:
  assumes cfg: "assertConfig cfg = Inr ()"
    and tok: "truthy (cachedToken st)"
    and script: "pending st = map Some rs @ Some hit # rest"
    and len: "page + length rs \<le> 10"
    and empties: "\<forall>r \<in> set rs. res_ok r \<and> page_bugs cfg keyword status r = Inr []"
    and hit: "res_ok hit" "page_bugs cfg keyword status hit = Inr (b # bs)"
  shows "getNextBug_pages cfg productId keyword status page st =
     (case getBugWithImages cfg (js_or (optProp b ''id'') (optProp b ''bugId''))
             (st\<lparr>pending := rest,
                 sent := sent st @ map (pageRequest cfg (cachedToken st) productId keyword)
                                     [page..<page + length rs + 1]\<rparr>) of
        (Inl e, s) \<Rightarrow> (Inl e, s)
      | (Inr detail, s) \<Rightarrow> (Inr (NextBug detail), s))"
  using tok script len empties
proof (induction rs arbitrary: page st)
  case Nil
  then show ?case
    using getNextBug_pages_hit_page [OF cfg Nil.prems(1) _ hit, of rest page productId]
    by simp
next
  case (Cons r rs)
  let ?st1 = "st\<lparr>pending := map Some rs @ Some hit # rest,
      sent := sent st @ [pageRequest cfg (cachedToken st) productId keyword page]\<rparr>"
  from Cons.prems have page: "page \<le> 10" by simp
  have step: "getNextBug_pages cfg productId keyword status page st =
      getNextBug_pages cfg productId keyword status (page + 1) ?st1"
    using Cons.prems page by (intro getNextBug_pages_empty_page [OF cfg]) auto
  have rest: "getNextBug_pages cfg productId keyword status (page + 1) ?st1 =
     (case getBugWithImages cfg (js_or (optProp b ''id'') (optProp b ''bugId''))
             (?st1\<lparr>pending := rest,
                 sent := sent ?st1 @ map (pageRequest cfg (cachedToken ?st1) productId keyword)
                                     [page + 1..<page + 1 + length rs + 1]\<rparr>) of
        (Inl e, s) \<Rightarrow> (Inl e, s)
      | (Inr detail, s) \<Rightarrow> (Inr (NextBug detail), s))"
    using Cons.prems by (intro Cons.IH) auto
  have upt: "[page..<page + length (r # rs) + 1] = page # [page + 1..<page + 1 + length rs + 1]"
    using upt_conv_Cons [of page "page + length (r # rs) + 1"] by simp
  show ?case
    unfolding step rest upt by simp
qed

lemma pages_sent_cachedToken [simp]: "pages_sent cfg (st\<lparr>cachedToken := t\<rparr>) = pages_sent cfg st"
  by (simp add: pages_sent_def)

lemma pages_sent_fetch:
  "pages_sent cfg (snd (fetch req st)) = pages_sent cfg st + (if is_page_request cfg req then 1 else 0)"
  by (simp add: pages_sent_def)

lemma tokenRequest_not_page: "\<not> is_page_request cfg (tokenRequest cfg)"
  by (simp add: is_page_request_def tokenRequest_def startsWith_def)

lemma pages_sent_fetchToken: "pages_sent cfg (snd (fetchToken cfg f st)) = pages_sent cfg st"
proof -
  obtain r st1 where f: "fetch (tokenRequest cfg) st = (r, st1)"
    by (cases "fetch (tokenRequest cfg) st")
  then have "pages_sent cfg st1 = pages_sent cfg st"
    using pages_sent_fetch [of cfg "tokenRequest cfg" st] tokenRequest_not_page [of cfg] by simp
  then show ?thesis
    using f by (cases r) (simp_all add: fetchToken_def split: sum.splits)
qed

lemma pages_sent_callZenTao:
  "pages_sent cfg (snd (callZenTao cfg d st)) \<le> pages_sent cfg st + 1
   \<and> (\<not> startsWith (buildUrl cfg (d_path d) (d_query d)) (baseUrl cfg @ ''/api.php/v1/bugs?'') \<longrightarrow>
        pages_sent cfg (snd (callZenTao cfg d st)) = pages_sent cfg st)"
proof (cases "assertConfig cfg")
  case (Inl e)
  then show ?thesis by (simp add: callZenTao_def)
next
  case (Inr u)
  obtain t st1 where t: "fetchToken cfg (d_forceTokenRefresh d) st = (t, st1)"
    by (cases "fetchToken cfg (d_forceTokenRefresh d) st")
  then have p1: "pages_sent cfg st1 = pages_sent cfg st"
    using pages_sent_fetchToken [of cfg "d_forceTokenRefresh d" st] by simp
  show ?thesis
  proof (cases t)
    case (Inl e)
    then show ?thesis using Inr t p1 by (simp add: callZenTao_def)
  next
    case tok: (Inr token)
    obtain r st2 where f: "fetch (callRequest cfg d token) st1 = (r, st2)"
      by (cases "fetch (callRequest cfg d token) st1")
    then have p2: "pages_sent cfg st2 =
        pages_sent cfg st + (if is_page_request cfg (callRequest cfg d token) then 1 else 0)"
      using pages_sent_fetch [of cfg "callRequest cfg d token" st1] p1 by simp
    have s: "snd (callZenTao cfg d st) = st2"
      using Inr t tok f by (cases r) (simp_all add: callZenTao_def)
    show ?thesis
      unfolding s p2 by (simp add: is_page_request_def callRequest_def)
  qed
qed

lemma pages_sent_fetchBugs:
  "pages_sent cfg (snd (fetchBugsByProduct cfg productId keyword a status limit page st))
     \<le> pages_sent cfg st + 1"
proof -
  let ?d = "get_query ''bugs''
      [(''page'', page), (''limit'', limit), (''product'', productId), (''keywords'', keyword)]"
  have "snd (fetchBugsByProduct cfg productId keyword a status limit page st) = snd (callZenTao cfg ?d st)"
    by (simp add: fetchBugsByProduct_def split: prod.splits sum.splits)
  then show ?thesis
    using pages_sent_callZenTao [of cfg ?d st] by simp
qed

lemma detail_url_not_page:
  "\<not> startsWith (buildUrl cfg (d_path (get_request (''bugs/'' @ x))) (d_query (get_request (''bugs/'' @ x))))
       (baseUrl cfg @ ''/api.php/v1/bugs?'')"
  by (simp add: get_request_def buildUrl_def cleaned_def startsWith_def stripLeadingSlash_def)

lemma pages_sent_getBugWithImages:
  "pages_sent cfg (snd (getBugWithImages cfg bugId st)) = pages_sent cfg st"
proof -
  let ?d = "get_request (''bugs/'' @ toString bugId)"
  have "snd (getBugWithImages cfg bugId st) = snd (callZenTao cfg ?d st)"
    by (simp add: getBugWithImages_def split: prod.splits sum.splits)
  then show ?thesis
    using pages_sent_callZenTao [of cfg ?d st] detail_url_not_page [of cfg "toString bugId"] by simp
qed

lemma pages_sent_getNextBug_pages:
  "pages_sent cfg (snd (getNextBug_pages cfg productId keyword status page st))
     \<le> pages_sent cfg st + (11 - page)"
proof (induction cfg productId keyword status page st rule: getNextBug_pages.induct)
  case (1 cfg productId keyword status page st)
  show ?case
  proof (cases "page \<le> 10")
    case False
    then show ?thesis by (simp add: getNextBug_pages.simps)
  next
    case True
    obtain r st1 where f: "fetchBugsByProduct cfg productId keyword False status (Num 20) (Num (int page)) st = (r, st1)"
      by (cases "fetchBugsByProduct cfg productId keyword False status (Num 20) (Num (int page)) st")
    then have p1: "pages_sent cfg st1 \<le> pages_sent cfg st + 1"
      using pages_sent_fetchBugs [of cfg productId keyword False status "Num 20" "Num (int page)" st]
      by simp
    show ?thesis
    proof (cases r)
      case (Inl e)
      then show ?thesis
        using True f p1 by (subst getNextBug_pages.simps) simp
    next
      case (Inr br)
      obtain bugs raw where br: "br = (bugs, raw)" by (cases br)
      show ?thesis
      proof (cases "length bugs \<noteq> 0")
        case False
        then have "pages_sent cfg (snd (getNextBug_pages cfg productId keyword status (page + 1) st1))
            \<le> pages_sent cfg st1 + (11 - (page + 1))"
          using "1.IH" [OF True f [symmetric] _ br [symmetric]] Inr by simp
        then show ?thesis
          using True f p1 Inr br False by (subst getNextBug_pages.simps) simp
      next
        case nonempty: True
        show ?thesis
        proof (cases "firstBugId bugs")
          case (Inl e)
          then show ?thesis
            using True f p1 Inr br nonempty by (subst getNextBug_pages.simps) simp
        next
          case bid: (Inr bugId)
          obtain d st2 where g: "getBugWithImages cfg bugId st1 = (d, st2)"
            by (cases "getBugWithImages cfg bugId st1")
          then have p2: "pages_sent cfg st2 = pages_sent cfg st1"
            using pages_sent_getBugWithImages [of cfg bugId st1] by simp
          show ?thesis
            using True f p1 p2 Inr br nonempty bid g
            by (subst getNextBug_pages.simps) (cases d; simp)
        qed
      qed
    qed
  qed
qed

text \<open>
  C9. \<open>getNextBug\<close> is a total function: its loop is defined by recursion on the pages
  left up to page 10. Whatever the remote service answers, it sends at most 10 requests for
  a page of bugs. With a complete configuration and a token in the cache: when the first
  ten responses are pages without a matching bug, the result is the not-found message
  after exactly the requests for pages 1 to 10 (20 bugs a page), and what the remote
  service would answer next, a page with a matching bug included, is never asked for;
  when fewer than ten pages without a match are followed by a page with one, the loop stops
  there and the result is the detail of the first matching bug of that page.
\<close>

theorem getNextBug_bounded:
  "pages_sent cfg (snd (getNextBug cfg productId keyword status st)) \<le> pages_sent cfg st + 10
   \<and> (assertConfig cfg = Inr () \<and> truthy (cachedToken st)
        \<and> pending st = map Some rs @ rest \<and> length rs = 10
        \<and> (\<forall>r \<in> set rs. res_ok r \<and> page_bugs cfg keyword status r = Inr []) \<longrightarrow>
        getNextBug cfg productId keyword status st =
          (Inr (Message (noBugsText cfg @ '' found under product '' @ toString productId)),
           st\<lparr>pending := rest,
              sent := sent st @ map (pageRequest cfg (cachedToken st) productId keyword) [1..<11]\<rparr>))
   \<and> (assertConfig cfg = Inr () \<and> truthy (cachedToken st)
        \<and> pending st = map Some rs @ Some hit # Some det # rest \<and> length rs < 10
        \<and> (\<forall>r \<in> set rs. res_ok r \<and> page_bugs cfg keyword status r = Inr [])
        \<and> res_ok hit \<and> page_bugs cfg keyword status hit = Inr (b # bs) \<and> res_ok det \<longrightarrow>
        find (\<lambda>x. bugMatches cfg keyword False status x = Inr True)
          (extractArray (response_data hit) [''bugs'']) = Some b
        \<and> getNextBug cfg productId keyword status st =
            (Inr (NextBug (detailOf (response_data det))),
             st\<lparr>pending := rest,
                sent := sent st
                  @ map (pageRequest cfg (cachedToken st) productId keyword) [1..<length rs + 2]
                  @ [callRequest cfg
                       (get_request (''bugs/'' @ toString (js_or (optProp b ''id'') (optProp b ''bugId''))))
                       (cachedToken st)]\<rparr>))"
proof -
  have bound: "pages_sent cfg (snd (getNextBug cfg productId keyword status st)) \<le> pages_sent cfg st + 10"
    using pages_sent_getNextBug_pages [of cfg productId keyword status 1 st]
    by (simp add: getNextBug_def)
  have not_found: "getNextBug cfg productId keyword status st =
          (Inr (Message (noBugsText cfg @ '' found under product '' @ toString productId)),
           st\<lparr>pending := rest,
              sent := sent st @ map (pageRequest cfg (cachedToken st) productId keyword) [1..<11]\<rparr>)"
    if "assertConfig cfg = Inr ()" "truthy (cachedToken st)" "pending st = map Some rs @ rest"
      "length rs = 10" "\<forall>r \<in> set rs. res_ok r \<and> page_bugs cfg keyword status r = Inr []"
    unfolding getNextBug_def
    using that by (intro getNextBug_pages_not_found) simp_all
  have found: "find (\<lambda>x. bugMatches cfg keyword False status x = Inr True)
          (extractArray (response_data hit) [''bugs'']) = Some b
        \<and> getNextBug cfg productId keyword status st =
            (Inr (NextBug (detailOf (response_data det))),
             st\<lparr>pending := rest,
                sent := sent st
                  @ map (pageRequest cfg (cachedToken st) productId keyword) [1..<length rs + 2]
                  @ [callRequest cfg
                       (get_request (''bugs/'' @ toString (js_or (optProp b ''id'') (optProp b ''bugId''))))
                       (cachedToken st)]\<rparr>)"
    if c: "assertConfig cfg = Inr ()" and t: "truthy (cachedToken st)"
      and s: "pending st = map Some rs @ Some hit # Some det # rest" and l: "length rs < 10"
      and e: "\<forall>r \<in> set rs. res_ok r \<and> page_bugs cfg keyword status r = Inr []"
      and h: "res_ok hit" "page_bugs cfg keyword status hit = Inr (b # bs)" and d: "res_ok det"
  proof -
    let ?st1 = "st\<lparr>pending := Some det # rest,
        sent := sent st @ map (pageRequest cfg (cachedToken st) productId keyword) [1..<1 + length rs + 1]\<rparr>"
    have loop: "getNextBug cfg productId keyword status st =
        (case getBugWithImages cfg (js_or (optProp b ''id'') (optProp b ''bugId'')) ?st1 of
           (Inl e, s) \<Rightarrow> (Inl e, s)
         | (Inr detail, s) \<Rightarrow> (Inr (NextBug detail), s))"
      unfolding getNextBug_def
      using l by (intro getNextBug_pages_found [OF c t s _ e h]) simp
    have detail: "getBugWithImages cfg (js_or (optProp b ''id'') (optProp b ''bugId'')) ?st1 =
        (Inr (detailOf (response_data det)),
         ?st1\<lparr>pending := rest,
            sent := sent ?st1 @ [callRequest cfg
               (get_request (''bugs/'' @ toString (js_or (optProp b ''id'') (optProp b ''bugId''))))
               (cachedToken ?st1)]\<rparr>)"
      using c t d by (intro getBugWithImages_warm) simp_all
    show ?thesis
      unfolding loop detail using page_bugs_first [OF h(2)] by simp
  qed
  from bound not_found found show ?thesis
    by blast
qed

lemmas bug_simps =
  page_bugs_def bugMatches_def normalizeAccount_def identity_fields_def demo_bug_active_def
  demo_bug_other_def demo_bug_resolved_def demo_page_other_def demo_page_hit_def demo_detail_def

theorem getNextBug_bounded_witness:
  "assertConfig demo_config = Inr ()
   \<and> truthy (cachedToken (warm (replicate 10 (Some demo_page_other) @ [Some demo_page_hit])))
   \<and> res_ok demo_page_other
   \<and> page_bugs demo_config Undefined Undefined demo_page_other = Inr []
   \<and> res_ok demo_page_hit
   \<and> page_bugs demo_config Undefined Undefined demo_page_hit = Inr [demo_bug_active, demo_bug_resolved]
   \<and> res_ok demo_detail
   \<and> req_url (pageRequest demo_config (Str ''abc'') (Num 5) Undefined 3)
       = ''https://zt.example.com/api.php/v1/bugs?page=3&limit=20&product=5''
   \<and> fst (getNextBug demo_config (Num 5) Undefined Undefined
        (warm (replicate 10 (Some demo_page_other) @ [Some demo_page_hit])))
       = Inr (Message ''No active bugs assigned to alice found under product 5'')
   \<and> pending (snd (getNextBug demo_config (Num 5) Undefined Undefined
        (warm (replicate 10 (Some demo_page_other) @ [Some demo_page_hit]))))
       = [Some demo_page_hit]
   \<and> fst (getNextBug demo_config (Num 5) Undefined Undefined
        (warm [Some demo_page_other, Some demo_page_hit, Some demo_detail]))
       = Inr (NextBug (detailOf (response_data demo_detail)))
   \<and> pending (snd (getNextBug demo_config (Num 5) Undefined Undefined
        (warm [Some demo_page_other, Some demo_page_hit, Some demo_detail])))
       = []"
proof -
  have cfg: "assertConfig demo_config = Inr ()"
    by (simp add: assertConfig_def demo_config_def)
  have other: "res_ok demo_page_other \<and> page_bugs demo_config Undefined Undefined demo_page_other = Inr []"
    by (simp add: bug_simps eval_simps)
  have hit: "res_ok demo_page_hit
      \<and> page_bugs demo_config Undefined Undefined demo_page_hit = Inr [demo_bug_active, demo_bug_resolved]"
    by (simp add: bug_simps eval_simps)
  have det: "res_ok demo_detail"
    by (simp add: demo_detail_def json_response_def res_ok_def)
  have s1: "pending (warm (replicate 10 (Some demo_page_other) @ [Some demo_page_hit]))
      = map Some (replicate 10 demo_page_other) @ [Some demo_page_hit]"
    by (simp add: warm_def)
  have s2: "pending (warm [Some demo_page_other, Some demo_page_hit, Some demo_detail])
      = map Some [demo_page_other] @ Some demo_page_hit # Some demo_detail # []"
    by (simp add: warm_def)
  have tok: "truthy (cachedToken (warm script))" for script
    by (simp add: warm_def)
  have nf: "getNextBug demo_config (Num 5) Undefined Undefined
        (warm (replicate 10 (Some demo_page_other) @ [Some demo_page_hit])) =
      (Inr (Message (noBugsText demo_config @ '' found under product '' @ toString (Num 5))),
       (warm (replicate 10 (Some demo_page_other) @ [Some demo_page_hit]))
         \<lparr>pending := [Some demo_page_hit],
          sent := sent (warm (replicate 10 (Some demo_page_other) @ [Some demo_page_hit]))
            @ map (pageRequest demo_config
                (cachedToken (warm (replicate 10 (Some demo_page_other) @ [Some demo_page_hit])))
                (Num 5) Undefined) [1..<11]\<rparr>)"
    using getNextBug_bounded [where cfg = demo_config and productId = "Num 5" and keyword = Undefined
        and status = Undefined
        and st = "warm (replicate 10 (Some demo_page_other) @ [Some demo_page_hit])"
        and rs = "replicate 10 demo_page_other" and rest = "[Some demo_page_hit]"]
      cfg other s1 tok
    by simp
  have f: "getNextBug demo_config (Num 5) Undefined Undefined
        (warm [Some demo_page_other, Some demo_page_hit, Some demo_detail]) =
      (Inr (NextBug (detailOf (response_data demo_detail))),
       (warm [Some demo_page_other, Some demo_page_hit, Some demo_detail])
         \<lparr>pending := [],
          sent := sent (warm [Some demo_page_other, Some demo_page_hit, Some demo_detail])
            @ map (pageRequest demo_config
                (cachedToken (warm [Some demo_page_other, Some demo_page_hit, Some demo_detail]))
                (Num 5) Undefined) [1..<length [demo_page_other] + 2]
            @ [callRequest demo_config
                 (get_request (''bugs/'' @ toString (js_or (optProp demo_bug_active ''id'')
                                                        (optProp demo_bug_active ''bugId''))))
                 (cachedToken (warm [Some demo_page_other, Some demo_page_hit, Some demo_detail]))]\<rparr>)"
    using getNextBug_bounded [where cfg = demo_config and productId = "Num 5" and keyword = Undefined
        and status = Undefined
        and st = "warm [Some demo_page_other, Some demo_page_hit, Some demo_detail]"
        and rs = "[demo_page_other]" and rest = "[]" and hit = demo_page_hit and det = demo_detail
        and b = demo_bug_active and bs = "[demo_bug_resolved]"]
      cfg other hit det s2 tok
    by simp
  have msg: "noBugsText demo_config @ '' found under product '' @ toString (Num 5)
      = ''No active bugs assigned to alice found under product 5''"
    by (simp add: noBugsText_def demo_config_def number_toString_def decimal.simps digit_char_def)
  have url: "req_url (pageRequest demo_config (Str ''abc'') (Num 5) Undefined 3)
       = ''https://zt.example.com/api.php/v1/bugs?page=3&limit=20&product=5''"
    by (simp add: pageRequest_def eval_simps)
  show ?thesis
    unfolding nf f msg url using cfg other hit det tok by simp
qed


end
